theory Spec2Isabelle
  imports Main "HOL-Library.Word"
begin

section \<open>Data model\<close>

text \<open>
  A \<open>Uint8Array\<close> is a list of 8-bit words; offsets into it are natural numbers.
  A JavaScript string of single-byte characters is a \<open>string\<close>; a decoded text
  (UTF-16 code units) is a list of 16-bit words.
\<close>

type_synonym byte = "8 word"
type_synonym bytes = "byte list"
type_synonym utf16 = "16 word list"

text \<open>Every exception that the parser or one of its helpers can throw.\<close>

datatype error =
    TruncatedInput
  | InvalidOpcode
  | RangeError
  | DecompressionFailure
  | MetadataDecodeFailure

text \<open>An element of the \<open>fields\<close> array: \<open>{ tag: Uint8Array; value: Uint8Array }\<close>.\<close>

record field =
  tag :: bytes
  fvalue :: bytes

text \<open>
  The object \<open>{ slice, pointer }\<close> that the pushdata reader of
  \<open>inscription-parser.service.ts\<close> returns and that its \<open>current\<close> variable holds.
\<close>

record pushed =
  slice :: bytes
  pointer :: nat

text \<open>
  The module \<open>inscription-parser.service.helper\<close>, \<open>cbor\<close> and \<open>parsed-inscription\<close>
  are imported by the parser but are not among the source files. What the specification
  fixes of them is modelled below; what it leaves open is a field of this record, and
  every function of the parser takes the record as its first argument:
  the byte pattern that \<open>getNextInscriptionMark\<close> searches for, the opcode constant
  \<open>OP_ENDIF\<close>, the hex decoder, the Brotli decompressor, the two UTF-8 decoders and the
  structured-value decoder \<open>CBOR.decode\<close>. A helper returns a sum, whose left summand is
  an exception. The specification names failures of the decompressor and of the
  structured-value decoder; it names none of the hex decoder.
\<close>

record 'm helper =
  inscriptionMark :: bytes
  OP_ENDIF :: byte
  hexStringToUint8Array :: "string \<Rightarrow> error + bytes"
  brotliDecodeUint8Array :: "bytes \<Rightarrow> error + bytes"
  uint8ArrayToUtf8String :: "bytes \<Rightarrow> utf16"
  utf8BytesToUtf16String :: "bytes \<Rightarrow> utf16"
  cborDecode :: "bytes \<Rightarrow> error + 'm"

section \<open>Helpers modelled from the specification\<close>

text \<open>
  Modelled from the spec: the constant \<open>OP_0\<close> of the missing helper module
  (section 4.1: byte value 0 is OP_0, the empty push and the body separator).
\<close>

definition OP_0 :: byte where
  "OP_0 = 0"

text \<open>
  Modelled from the spec: the entry \<open>content_type\<close> of the table \<open>knownFields\<close> of
  the missing helper module (section 3, recognised tags).
\<close>

definition content_type :: nat where
  "content_type = 1"

text \<open>
  Modelled from the spec: the entry \<open>metadata\<close> of \<open>knownFields\<close> (section 3).
\<close>

definition metadata :: nat where
  "metadata = 5"

text \<open>
  Modelled from the spec: the entry \<open>content_encoding\<close> of \<open>knownFields\<close> (section 3).
\<close>

definition content_encoding :: nat where
  "content_encoding = 9"

text \<open>
  Modelled from the spec: reading \<open>n\<close> bytes at a cursor, as the pushdata reader of the
  missing helper module does (section 4.1): it fails with \<open>TruncatedInput\<close> when fewer
  than \<open>n\<close> bytes remain, and never reads past the end of the buffer.
\<close>

definition readBytes :: "bytes \<Rightarrow> nat \<Rightarrow> nat \<Rightarrow> error + (bytes \<times> nat)" where
  "readBytes raw p n =
     (if p + n \<le> length raw then Inr (take n (drop p raw), p + n) else Inl TruncatedInput)"

text \<open>
  Modelled from the spec: the little-endian length that follows a PUSHDATA opcode
  (section 4.1).
\<close>

fun littleEndianBytesToNumber :: "bytes \<Rightarrow> nat" where
  "littleEndianBytesToNumber [] = 0"
| "littleEndianBytesToNumber (b # bs) = unat b + 256 * littleEndianBytesToNumber bs"

text \<open>
  Modelled from the spec: the pushdata reader \<open>readPushdata\<close> of the missing helper
  module (section 4.1). It fails with \<open>TruncatedInput\<close> when the cursor is at or beyond
  the end of the buffer. Opcode 0 is the empty push; opcodes 1 to 75 are a direct length;
  76, 77 and 78 announce a length of 1, 2 and 4 bytes. The section lists no other opcode
  class: any other byte is rejected.
\<close>

definition readPushdata :: "bytes \<Rightarrow> nat \<Rightarrow> error + (bytes \<times> nat)" where
  "readPushdata raw p =
     (if length raw \<le> p then Inl TruncatedInput
      else
        let opcode = unat (raw ! p) in
        if opcode = 0 then Inr ([], p + 1)
        else if opcode \<le> 75 then readBytes raw (p + 1) opcode
        else if opcode = 76 \<or> opcode = 77 \<or> opcode = 78 then
          (case readBytes raw (p + 1) (if opcode = 76 then 1 else if opcode = 77 then 2 else 4) of
             Inl ex \<Rightarrow> Inl ex
           | Inr (dataSize, next) \<Rightarrow> readBytes raw next (littleEndianBytesToNumber dataSize))
        else Inl InvalidOpcode)"

text \<open>
  Modelled from the spec: the envelope scanner \<open>getNextInscriptionMark\<close> of the missing
  helper module (section 4.2). It searches for the start-of-envelope byte pattern at or
  after \<open>startPosition\<close> and returns the offset just past the first occurrence;
  \<open>None\<close> is the sentinel \<open>-1\<close>. The specification does not give the bytes of the
  pattern: it is the field \<open>inscriptionMark\<close> of the helper record.
\<close>

definition getNextInscriptionMark :: "'m helper \<Rightarrow> bytes \<Rightarrow> nat \<Rightarrow> nat option" where
  "getNextInscriptionMark h raw startPosition =
     map_option (\<lambda>index. index + length (inscriptionMark h))
       (List.find (\<lambda>index. take (length (inscriptionMark h)) (drop index raw) = inscriptionMark h)
          [startPosition ..< Suc (length raw) - length (inscriptionMark h)])"

section \<open>The parser of inscription-parser.service.ts\<close>

text \<open>The reader as that file uses it: the result is an object, not a pair.\<close>

definition readPushdata1 :: "bytes \<Rightarrow> nat \<Rightarrow> error + pushed" where
  "readPushdata1 raw p =
     (case readPushdata raw p of
        Inl ex \<Rightarrow> Inl ex
      | Inr (s, q) \<Rightarrow> Inr \<lparr>slice = s, pointer = q\<rparr>)"

lemma readBytes_advances: "readBytes raw p n = Inr (s, q) \<Longrightarrow> q = p + n \<and> q \<le> length raw"
  by (auto simp: readBytes_def split: if_splits)

lemma readPushdata_advances: "readPushdata raw p = Inr (s, q) \<Longrightarrow> p < q \<and> q \<le> length raw"
  by (auto simp: readPushdata_def Let_def split: if_splits sum.splits dest!: readBytes_advances)

lemma readPushdata1_advances: "readPushdata1 raw p = Inr c \<Longrightarrow> p < pointer c \<and> pointer c \<le> length raw"
  by (auto simp: readPushdata1_def split: sum.splits dest: readPushdata_advances)

text \<open>The loop "process fields until OP_0 is encountered" (lines 76 to 85).\<close>

function fieldsLoop1 :: "bytes \<Rightarrow> pushed \<Rightarrow> field list \<Rightarrow> error + (pushed \<times> field list)" where
  "fieldsLoop1 raw current flds =
     (if pointer current < length raw \<and> raw ! pointer current \<noteq> OP_0 then
        (case readPushdata1 raw (pointer current) of
           Inl ex \<Rightarrow> Inl ex
         | Inr c1 \<Rightarrow>
             (case readPushdata1 raw (pointer c1) of
                Inl ex \<Rightarrow> Inl ex
              | Inr c2 \<Rightarrow> fieldsLoop1 raw c2 (flds @ [\<lparr>tag = slice c1, fvalue = slice c2\<rparr>])))
      else Inr (current, flds))"
  by pat_completeness auto
termination
proof (relation "measure (\<lambda>(raw, current, flds). length raw - pointer current)")
  show "wf (measure (\<lambda>(raw, current, flds). length raw - pointer current))" by simp
next
  fix raw :: bytes and current :: pushed and flds :: "field list" and c1 c2 :: pushed
  assume a: "pointer current < length raw \<and> raw ! pointer current \<noteq> OP_0"
    and r1: "readPushdata1 raw (pointer current) = Inr c1"
    and r2: "readPushdata1 raw (pointer c1) = Inr c2"
  from readPushdata1_advances [OF r1] readPushdata1_advances [OF r2] a
  have "length raw - pointer c2 < length raw - pointer current" by arith
  then show "((raw, c2, flds @ [\<lparr>tag = slice c1, fvalue = slice c2\<rparr>]), (raw, current, flds))
        \<in> measure (\<lambda>(raw, current, flds). length raw - pointer current)"
    by simp
qed


text \<open>The loop "collect body data until OP_ENDIF" (lines 97 to 100).\<close>

function bodyLoop1 :: "'m helper \<Rightarrow> bytes \<Rightarrow> pushed \<Rightarrow> bytes list \<Rightarrow> error + (pushed \<times> bytes list)" where
  "bodyLoop1 h raw current data =
     (if pointer current < length raw \<and> raw ! pointer current \<noteq> OP_ENDIF h then
        (case readPushdata1 raw (pointer current) of
           Inl ex \<Rightarrow> Inl ex
         | Inr c \<Rightarrow> bodyLoop1 h raw c (data @ [slice c]))
      else Inr (current, data))"
  by pat_completeness auto
termination
proof (relation "measure (\<lambda>(h, raw, current, data). length raw - pointer current)")
  show "wf (measure (\<lambda>(h :: 'm helper, raw, current, data :: bytes list). length raw - pointer current))"
    by simp
next
  fix h :: "'m helper" and raw :: bytes and current c :: pushed and data :: "bytes list"
  assume a: "pointer current < length raw \<and> raw ! pointer current \<noteq> OP_ENDIF h"
    and r: "readPushdata1 raw (pointer current) = Inr c"
  from readPushdata1_advances [OF r] a
  have "length raw - pointer c < length raw - pointer current" by arith
  then show "((h, raw, c, data @ [slice c]), (h, raw, current, data))
        \<in> measure (\<lambda>(h, raw, current, data). length raw - pointer current)"
    by simp
qed

text \<open>
  \<open>TypedArray.prototype.set(source, offset)\<close>: copies \<open>source\<close> into the target at
  \<open>offset\<close> and throws a RangeError when the source does not fit.
\<close>

definition setAt :: "bytes \<Rightarrow> bytes \<Rightarrow> nat \<Rightarrow> error + bytes" where
  "setAt target source offset =
     (if offset + length source \<le> length target
      then Inr (take offset target @ source @ drop (offset + length source) target)
      else Inl RangeError)"

text \<open>The loop that copies every segment of \<open>data\<close> into \<open>combinedData\<close>.\<close>

fun copySegments :: "bytes list \<Rightarrow> bytes \<Rightarrow> nat \<Rightarrow> error + bytes" where
  "copySegments [] combinedData idx = Inr combinedData"
| "copySegments (segment # rest) combinedData idx =
     (case setAt combinedData segment idx of
        Inl ex \<Rightarrow> Inl ex
      | Inr combinedData' \<Rightarrow> copySegments rest combinedData' (idx + length segment))"

text \<open>
  \<open>data.reduce((acc, curr) => acc + curr.length, 0)\<close>, the zero-filled
  \<open>new Uint8Array(combinedLengthOfAllArrays)\<close> and the copy loop. Both files have
  these lines.
\<close>

definition combineData :: "bytes list \<Rightarrow> error + bytes" where
  "combineData data =
     (let combinedLengthOfAllArrays = foldl (\<lambda>acc curr. acc + length curr) 0 data
      in copySegments data (replicate combinedLengthOfAllArrays 0) 0)"

text \<open>
  Modelled from the spec: \<open>uint8ArrayToSingleByteChars\<close> of the missing helper module
  (section 4.5: a direct byte-to-character mapping, not UTF-8).
\<close>

definition uint8ArrayToSingleByteChars :: "bytes \<Rightarrow> string" where
  "uint8ArrayToSingleByteChars bs = map (\<lambda>b. char_of (unat b)) bs"

text \<open>
  Modelled from the spec: the alphabet of the base64 encoding that \<open>encodeToBase64\<close>
  of the missing helper module produces (section 2).
\<close>

definition base64Alphabet :: string where
  "base64Alphabet = ''ABCDEFGHIJKLMNOPQRSTUVWXYZabcdefghijklmnopqrstuvwxyz0123456789+/''"

text \<open>Modelled from the spec: the base64 digit of a number below 64.\<close>

definition base64Char :: "nat \<Rightarrow> char" where
  "base64Char n = base64Alphabet ! n"

text \<open>
  Modelled from the spec: base64 over character codes, three at a time, with \<open>=\<close>
  padding of the last group.
\<close>

fun encodeGroups :: "nat list \<Rightarrow> string" where
  "encodeGroups (a # b # c # rest) =
     [base64Char (a div 4), base64Char ((a mod 4) * 16 + b div 16),
      base64Char ((b mod 16) * 4 + c div 64), base64Char (c mod 64)] @ encodeGroups rest"
| "encodeGroups [a, b] =
     [base64Char (a div 4), base64Char ((a mod 4) * 16 + b div 16),
      base64Char ((b mod 16) * 4), CHR ''='']"
| "encodeGroups [a] =
     [base64Char (a div 4), base64Char ((a mod 4) * 16), CHR ''='', CHR ''='']"
| "encodeGroups [] = []"

text \<open>
  Modelled from the spec: \<open>encodeToBase64\<close> of the missing helper module (section 2:
  base64 encoding), applied to a string of single-byte characters.
\<close>

definition encodeToBase64 :: "string \<Rightarrow> string" where
  "encodeToBase64 content = encodeGroups (map of_char content)"

text \<open>
  The object that \<open>extractInscriptionData\<close> returns. Its accessors are closures over
  \<open>contentType\<close>, \<open>fields\<close> and \<open>combinedData\<close>: the record holds the three captured
  values and the accessors are functions of the record.
\<close>

record inscription =
  contentType :: string
  fields' :: "field list"
  combinedData :: bytes

definition getContentString1 :: "'m helper \<Rightarrow> 'a inscription_scheme \<Rightarrow> utf16" where
  "getContentString1 h r = uint8ArrayToUtf8String h (combinedData r)"

definition getData :: "'a inscription_scheme \<Rightarrow> string" where
  "getData r = (let content = uint8ArrayToSingleByteChars (combinedData r) in encodeToBase64 content)"

definition getDataUri :: "'a inscription_scheme \<Rightarrow> string" where
  "getDataUri r =
     (let content = uint8ArrayToSingleByteChars (combinedData r);
          fullBase64Data = encodeToBase64 content
      in ''data:'' @ contentType r @ '';base64,'' @ fullBase64Data)"

text \<open>
  The first half of the \<open>try\<close> block of \<open>extractInscriptionData\<close> (lines 72 to 110):
  the field loop, the step over the separator OP_0, the body loop and the copy into
  \<open>combinedData\<close>. \<open>Inl\<close> is a thrown exception.
\<close>

definition readEnvelope1 :: "'m helper \<Rightarrow> bytes \<Rightarrow> nat \<Rightarrow> error + (field list \<times> bytes)" where
  "readEnvelope1 h raw p =
     (case fieldsLoop1 raw \<lparr>slice = [], pointer = p\<rparr> [] of
        Inl ex \<Rightarrow> Inl ex
      | Inr (current, flds) \<Rightarrow>
          (case bodyLoop1 h raw
                  (if pointer current < length raw \<and> raw ! pointer current = OP_0
                   then \<lparr>slice = [], pointer = pointer current + 1\<rparr> else current) [] of
             Inl ex \<Rightarrow> Inl ex
           | Inr (current', data) \<Rightarrow>
               (case combineData data of
                  Inl ex \<Rightarrow> Inl ex
                | Inr combined \<Rightarrow> Inr (flds, combined))))"

text \<open>
  The second half (lines 112 to 142): the search for the content type field and the
  returned object. \<open>Inr None\<close> is \<open>return null\<close>.
\<close>

definition tryExtract1 :: "'m helper \<Rightarrow> bytes \<Rightarrow> nat \<Rightarrow> error + inscription option" where
  "tryExtract1 h raw p =
     (case readEnvelope1 h raw p of
        Inl ex \<Rightarrow> Inl ex
      | Inr (flds, combined) \<Rightarrow>
          (case List.find (\<lambda>x. length (tag x) = 1 \<and> unat (tag x ! 0) = content_type) flds of
             None \<Rightarrow> Inr None
           | Some contentTypeField \<Rightarrow>
               Inr (Some \<lparr>contentType = uint8ArrayToSingleByteChars (fvalue contentTypeField),
                          fields' = flds, combinedData = combined\<rparr>)))"

text \<open>The \<open>catch\<close> block (lines 144 to 147): every exception becomes \<open>null\<close>.\<close>

definition extractInscriptionData1 :: "'m helper \<Rightarrow> bytes \<Rightarrow> nat \<Rightarrow> inscription option" where
  "extractInscriptionData1 h raw p =
     (case tryExtract1 h raw p of Inl ex \<Rightarrow> None | Inr r \<Rightarrow> r)"

section \<open>The scanning loop and the entry point (the same lines in both files)\<close>

text \<open>
  The \<open>while (true)\<close> loop of \<open>parseInscriptionsWithinWitness\<close>. Nothing in the loop
  bounds the number of iterations, so the model is a partial function: \<open>None\<close> means
  that the loop never ends. \<open>extr\<close> is the \<open>extractInscriptionData\<close> of the file.
\<close>

partial_function (option) scanLoop ::
  "'m helper \<Rightarrow> (bytes \<Rightarrow> nat \<Rightarrow> 'i option) \<Rightarrow> bytes \<Rightarrow> nat \<Rightarrow> 'i list \<Rightarrow> 'i list option" where
  [code]: "scanLoop h extr raw startPosition inscriptions =
     (case getNextInscriptionMark h raw startPosition of
        None \<Rightarrow> Some inscriptions
      | Some p \<Rightarrow>
          scanLoop h extr raw p
            (case extr raw p of None \<Rightarrow> inscriptions | Some inscription \<Rightarrow> inscriptions @ [inscription]))"

text \<open>
  \<open>parseInscriptionsWithinWitness\<close>: the outer \<open>None\<close> is a loop that never ends,
  \<open>Some (Inl ex)\<close> an exception that leaves the function, \<open>Some (Inr None)\<close> the result
  \<open>null\<close>. The hex decoder is called outside every \<open>try\<close> block.
\<close>

definition parseInscriptionsWithinWitness ::
  "'m helper \<Rightarrow> (bytes \<Rightarrow> nat \<Rightarrow> 'i option) \<Rightarrow> string list \<Rightarrow> (error + 'i list option) option" where
  "parseInscriptionsWithinWitness h extr witness =
     (case hexStringToUint8Array h (concat witness) of
        Inl ex \<Rightarrow> Some (Inl ex)
      | Inr raw \<Rightarrow>
          (case scanLoop h extr raw 0 [] of
             None \<Rightarrow> None
           | Some inscriptions \<Rightarrow>
               Some (Inr (if length inscriptions > 0 then Some inscriptions else None))))"

text \<open>A transaction: \<open>{ vin: { witness?: string[] }[] }\<close>.\<close>

record txin =
  witness :: "string list option"

record transaction =
  vin :: "txin list"

text \<open>The \<open>for\<close> loop of \<open>parseInscriptions\<close> over \<open>transaction.vin\<close>.\<close>

fun vinLoop ::
  "'m helper \<Rightarrow> (bytes \<Rightarrow> nat \<Rightarrow> 'i option) \<Rightarrow> txin list \<Rightarrow> 'i list \<Rightarrow> (error + 'i list) option" where
  "vinLoop h extr [] inscriptions = Some (Inr inscriptions)"
| "vinLoop h extr (v # rest) inscriptions =
     (case witness v of
        None \<Rightarrow> vinLoop h extr rest inscriptions
      | Some w \<Rightarrow>
          (case parseInscriptionsWithinWitness h extr w of
             None \<Rightarrow> None
           | Some (Inl ex) \<Rightarrow> Some (Inl ex)
           | Some (Inr None) \<Rightarrow> vinLoop h extr rest inscriptions
           | Some (Inr (Some vinInscriptions)) \<Rightarrow>
               vinLoop h extr rest (inscriptions @ vinInscriptions)))"

definition parseInscriptionsWith ::
  "'m helper \<Rightarrow> (bytes \<Rightarrow> nat \<Rightarrow> 'i option) \<Rightarrow> transaction \<Rightarrow> (error + 'i list) option" where
  "parseInscriptionsWith h extr t = vinLoop h extr (vin t) []"

text \<open>\<open>parseInscriptions\<close> of \<open>inscription-parser.service.ts\<close>.\<close>

definition parseInscriptions1 :: "'m helper \<Rightarrow> transaction \<Rightarrow> (error + inscription list) option" where
  "parseInscriptions1 h t = parseInscriptionsWith h (extractInscriptionData1 h) t"

section \<open>The parser with content encoding and metadata (the second file)\<close>

text \<open>
  Modelled from the spec: \<open>getKnownFieldValue\<close> of the missing helper module
  (section 4.5: locate the field by its tag). It returns the value of the first field
  whose tag is the single byte of the given tag value, \<open>None\<close> (undefined) without one.
\<close>

definition getKnownFieldValue :: "field list \<Rightarrow> nat \<Rightarrow> bytes option" where
  "getKnownFieldValue flds t = map_option fvalue (List.find (\<lambda>x. tag x = [of_nat t]) flds)"

text \<open>
  The field loop (lines 103 to 111). The reader returns the pair \<open>[slice, newPointer]\<close>;
  \<open>slice\<close> is assigned before each use, so only \<open>newPointer\<close> is loop state.
\<close>

function fieldsLoop2 :: "bytes \<Rightarrow> nat \<Rightarrow> field list \<Rightarrow> error + (nat \<times> field list)" where
  "fieldsLoop2 raw newPointer flds =
     (if newPointer < length raw \<and> raw ! newPointer \<noteq> OP_0 then
        (case readPushdata raw newPointer of
           Inl ex \<Rightarrow> Inl ex
         | Inr (tg, p1) \<Rightarrow>
             (case readPushdata raw p1 of
                Inl ex \<Rightarrow> Inl ex
              | Inr (vl, p2) \<Rightarrow> fieldsLoop2 raw p2 (flds @ [\<lparr>tag = tg, fvalue = vl\<rparr>])))
      else Inr (newPointer, flds))"
  by pat_completeness auto
termination
proof (relation "measure (\<lambda>(raw, newPointer, flds). length raw - newPointer)")
  show "wf (measure (\<lambda>(raw :: bytes, newPointer, flds :: field list). length raw - newPointer))"
    by simp
next
  fix raw :: bytes and newPointer p1 p2 :: nat and flds :: "field list" and tg vl :: bytes
    and x y :: "bytes \<times> nat"
  assume a: "newPointer < length raw \<and> raw ! newPointer \<noteq> OP_0"
    and r1: "readPushdata raw newPointer = Inr x" and x: "(tg, p1) = x"
    and r2: "readPushdata raw p1 = Inr y" and y: "(vl, p2) = y"
  from r1 x have "newPointer < p1" by (auto dest: readPushdata_advances)
  moreover from r2 y have "p1 < p2" by (auto dest: readPushdata_advances)
  ultimately have "length raw - p2 < length raw - newPointer" using a by arith
  then show "((raw, p2, flds @ [\<lparr>tag = tg, fvalue = vl\<rparr>]), (raw, newPointer, flds))
        \<in> measure (\<lambda>(raw, newPointer, flds). length raw - newPointer)"
    by simp
qed

text \<open>The body loop (lines 122 to 125).\<close>

function bodyLoop2 :: "'m helper \<Rightarrow> bytes \<Rightarrow> nat \<Rightarrow> bytes list \<Rightarrow> error + (nat \<times> bytes list)" where
  "bodyLoop2 h raw newPointer data =
     (if newPointer < length raw \<and> raw ! newPointer \<noteq> OP_ENDIF h then
        (case readPushdata raw newPointer of
           Inl ex \<Rightarrow> Inl ex
         | Inr (sl, p1) \<Rightarrow> bodyLoop2 h raw p1 (data @ [sl]))
      else Inr (newPointer, data))"
  by pat_completeness auto
termination
proof (relation "measure (\<lambda>(h, raw, newPointer, data). length raw - newPointer)")
  show "wf (measure (\<lambda>(h :: 'm helper, raw :: bytes, newPointer, data :: bytes list). length raw - newPointer))"
    by simp
next
  fix h :: "'m helper" and raw :: bytes and newPointer p1 :: nat and data :: "bytes list"
    and sl :: bytes and x :: "bytes \<times> nat"
  assume a: "newPointer < length raw \<and> raw ! newPointer \<noteq> OP_ENDIF h"
    and r1: "readPushdata raw newPointer = Inr x" and x: "(sl, p1) = x"
  from r1 x have "newPointer < p1" by (auto dest: readPushdata_advances)
  then have "length raw - p1 < length raw - newPointer" using a by arith
  then show "((h, raw, p1, data @ [sl]), (h, raw, newPointer, data))
        \<in> measure (\<lambda>(h, raw, newPointer, data). length raw - newPointer)"
    by simp
qed

text \<open>
  The returned object of this file also captures \<open>contentEncoding\<close>, which is
  \<open>undefined\<close> (\<open>None\<close>) when the envelope has no such field.
\<close>

record inscription2 = inscription +
  contentEncoding :: "string option"

text \<open>\<open>utf8BytesToUtf16String(combinedData) + ''\<close>: appending the empty string.\<close>

definition getContentString :: "'m helper \<Rightarrow> inscription2 \<Rightarrow> utf16" where
  "getContentString h r = utf8BytesToUtf16String h (combinedData r) @ []"

text \<open>
  \<open>getMetadata\<close> (lines 190 to 198): no \<open>try\<close> block surrounds the call of
  \<open>CBOR.decode\<close>, so what the decoder throws leaves the accessor.
\<close>

definition getMetadata :: "'m helper \<Rightarrow> inscription2 \<Rightarrow> error + 'm option" where
  "getMetadata h r =
     (case getKnownFieldValue (fields' r) metadata of
        None \<Rightarrow> Inr None
      | Some metadataRaw \<Rightarrow>
          (case cborDecode h metadataRaw of Inl ex \<Rightarrow> Inl ex | Inr v \<Rightarrow> Inr (Some v)))"

definition getContentEncoding :: "inscription2 \<Rightarrow> string option" where
  "getContentEncoding r = contentEncoding r"

text \<open>The first half of the \<open>try\<close> block (lines 96 to 135).\<close>

definition readEnvelope2 :: "'m helper \<Rightarrow> bytes \<Rightarrow> nat \<Rightarrow> error + (field list \<times> bytes)" where
  "readEnvelope2 h raw p =
     (case fieldsLoop2 raw p [] of
        Inl ex \<Rightarrow> Inl ex
      | Inr (newPointer, flds) \<Rightarrow>
          (case bodyLoop2 h raw
                  (if newPointer < length raw \<and> raw ! newPointer = OP_0
                   then newPointer + 1 else newPointer) [] of
             Inl ex \<Rightarrow> Inl ex
           | Inr (newPointer', data) \<Rightarrow>
               (case combineData data of
                  Inl ex \<Rightarrow> Inl ex
                | Inr combined \<Rightarrow> Inr (flds, combined))))"

text \<open>
  The second half (lines 137 to 208): content type, content encoding, decompression and
  the returned object. An empty \<open>Uint8Array\<close> is truthy, so \<open>!contentTypeRaw\<close> and
  \<open>contentEncodingRaw\<close> only test for \<open>undefined\<close>.
\<close>

definition tryExtract2 :: "'m helper \<Rightarrow> bytes \<Rightarrow> nat \<Rightarrow> error + inscription2 option" where
  "tryExtract2 h raw p =
     (case readEnvelope2 h raw p of
        Inl ex \<Rightarrow> Inl ex
      | Inr (flds, combined) \<Rightarrow>
          (case getKnownFieldValue flds content_type of
             None \<Rightarrow> Inr None
           | Some contentTypeRaw \<Rightarrow>
               (let encoding =
                      map_option uint8ArrayToSingleByteChars
                        (getKnownFieldValue flds content_encoding)
                in case (if encoding = Some ''br''
                         then brotliDecodeUint8Array h combined else Inr combined) of
                     Inl ex \<Rightarrow> Inl ex
                   | Inr combined' \<Rightarrow>
                       Inr (Some \<lparr>contentType = uint8ArrayToSingleByteChars contentTypeRaw,
                                  fields' = flds, combinedData = combined',
                                  contentEncoding = encoding\<rparr>))))"

text \<open>The \<open>catch\<close> block (lines 210 to 213).\<close>

definition extractInscriptionData2 :: "'m helper \<Rightarrow> bytes \<Rightarrow> nat \<Rightarrow> inscription2 option" where
  "extractInscriptionData2 h raw p =
     (case tryExtract2 h raw p of Inl ex \<Rightarrow> None | Inr r \<Rightarrow> r)"

definition parseInscriptions2 :: "'m helper \<Rightarrow> transaction \<Rightarrow> (error + inscription2 list) option" where
  "parseInscriptions2 h t = parseInscriptionsWith h (extractInscriptionData2 h) t"

section \<open>A helper instance for concrete inputs\<close>

text \<open>
  The examples below run the parser with this instance of the helper record: the
  envelope mark OP_FALSE OP_IF OP_PUSHBYTES_3 "ord", \<open>OP_ENDIF = 0x68\<close>, the hex
  conversion \<open>hexToBytes\<close>, which never fails, a run-length decoder standing in for
  the decompressor (pairs of a count and a byte; it rejects an input of odd length), code
  units equal to the bytes as text decoder, and a metadata decoder for the unsigned
  integers below 256 of the structured-value encoding (one byte below 24, or 0x18 and
  one more byte).
\<close>

text \<open>
  Modelled from the spec: the value of a hex character, for the hex conversion of the
  missing helper module (section 2). The specification names no failure of the
  conversion, so a character that is no hex digit has a value too, here 0.
\<close>

definition hexDigit :: "char \<Rightarrow> nat" where
  "hexDigit c =
     (let n = (of_char c :: nat) in
      if 48 \<le> n \<and> n \<le> 57 then n - 48
      else if 97 \<le> n \<and> n \<le> 102 then n - 87
      else if 65 \<le> n \<and> n \<le> 70 then n - 55
      else 0)"

text \<open>
  Modelled from the spec: the hex conversion of the missing helper module (sections 2
  and 6): a string of even length, each byte as two hex characters. It is a total
  function, as the specification names no failure of it; outside the declared form it
  ignores a single last character.
\<close>

fun hexToBytes :: "string \<Rightarrow> bytes" where
  "hexToBytes (c # d # rest) = of_nat (16 * hexDigit c + hexDigit d) # hexToBytes rest"
| "hexToBytes [c] = []"
| "hexToBytes [] = []"

fun runLengthDecode :: "bytes \<Rightarrow> error + bytes" where
  "runLengthDecode [] = Inr []"
| "runLengthDecode [n] = Inl DecompressionFailure"
| "runLengthDecode (n # b # rest) =
     (case runLengthDecode rest of Inl ex \<Rightarrow> Inl ex | Inr bs \<Rightarrow> Inr (replicate (unat n) b @ bs))"

definition smallUnsigned :: "bytes \<Rightarrow> error + nat" where
  "smallUnsigned bs =
     (case bs of
        [b] \<Rightarrow> if unat b < 24 then Inr (unat b) else Inl MetadataDecodeFailure
      | [b, c] \<Rightarrow> if b = 0x18 then Inr (unat c) else Inl MetadataDecodeFailure
      | _ \<Rightarrow> Inl MetadataDecodeFailure)"

definition ordHelper :: "nat helper" where
  "ordHelper =
     \<lparr>inscriptionMark = [0x00, 0x63, 0x03, 0x6f, 0x72, 0x64],
      OP_ENDIF = 0x68,
      hexStringToUint8Array = (\<lambda>hex. Inr (hexToBytes hex)),
      brotliDecodeUint8Array = runLengthDecode,
      uint8ArrayToUtf8String = map ucast,
      utf8BytesToUtf16String = map ucast,
      cborDecode = smallUnsigned\<rparr>"

text \<open>
  Witness buffers for the examples, as bytes and as hex. Each starts with the mark.
  \<open>plainEnvelope\<close>: content type "text/plain", body "hi".
  \<open>truncatedEnvelope\<close>: a content type tag, then a PUSHDATA1 that announces 255 bytes.
  \<open>untypedEnvelope\<close>: a metadata field only, body "hi".
  \<open>wideTagEnvelope\<close>: the tag is the two bytes 01 00, value "text/plain", body "hi".
  \<open>mixedTagEnvelope\<close>: a field with tag 01 00 and value "no", then content type "text/plain".
  \<open>compressedEnvelope\<close>: content type "text/plain", content encoding "br", body 02 61 03 62.
  \<open>badMetadataEnvelope\<close>: content type "text/plain", metadata 18 (an integer header
  without its byte), body "hi".
  \<open>chunkedEnvelope\<close>: content type "text/plain", body in the two pushes "h" and "i".
  \<open>emptyBodyEnvelope\<close>: content type "text/plain", no body push.
\<close>

definition plainEnvelope :: bytes where
  "plainEnvelope =
     [0x00, 0x63, 0x03, 0x6f, 0x72, 0x64, 0x01, 0x01,
      0x0a, 0x74, 0x65, 0x78, 0x74, 0x2f, 0x70, 0x6c, 0x61, 0x69, 0x6e,
      0x00, 0x02, 0x68, 0x69, 0x68]"

definition plainEnvelopeHex :: string where
  "plainEnvelopeHex = ''0063036f726401010a746578742f706c61696e0002686968''"

definition truncatedEnvelope :: bytes where
  "truncatedEnvelope = [0x00, 0x63, 0x03, 0x6f, 0x72, 0x64, 0x01, 0x01, 0x4c, 0xff]"


definition untypedEnvelope :: bytes where
  "untypedEnvelope =
     [0x00, 0x63, 0x03, 0x6f, 0x72, 0x64, 0x01, 0x05, 0x01, 0x07,
      0x00, 0x02, 0x68, 0x69, 0x68]"

definition untypedEnvelopeHex :: string where
  "untypedEnvelopeHex = ''0063036f7264010501070002686968''"

definition wideTagEnvelope :: bytes where
  "wideTagEnvelope =
     [0x00, 0x63, 0x03, 0x6f, 0x72, 0x64, 0x02, 0x01, 0x00,
      0x0a, 0x74, 0x65, 0x78, 0x74, 0x2f, 0x70, 0x6c, 0x61, 0x69, 0x6e,
      0x00, 0x02, 0x68, 0x69, 0x68]"

definition mixedTagEnvelope :: bytes where
  "mixedTagEnvelope =
     [0x00, 0x63, 0x03, 0x6f, 0x72, 0x64, 0x02, 0x01, 0x00, 0x02, 0x6e, 0x6f,
      0x01, 0x01, 0x0a, 0x74, 0x65, 0x78, 0x74, 0x2f, 0x70, 0x6c, 0x61, 0x69, 0x6e,
      0x00, 0x02, 0x68, 0x69, 0x68]"

definition compressedEnvelope :: bytes where
  "compressedEnvelope =
     [0x00, 0x63, 0x03, 0x6f, 0x72, 0x64, 0x01, 0x01,
      0x0a, 0x74, 0x65, 0x78, 0x74, 0x2f, 0x70, 0x6c, 0x61, 0x69, 0x6e,
      0x01, 0x09, 0x02, 0x62, 0x72,
      0x00, 0x04, 0x02, 0x61, 0x03, 0x62, 0x68]"

definition badMetadataEnvelope :: bytes where
  "badMetadataEnvelope =
     [0x00, 0x63, 0x03, 0x6f, 0x72, 0x64, 0x01, 0x01,
      0x0a, 0x74, 0x65, 0x78, 0x74, 0x2f, 0x70, 0x6c, 0x61, 0x69, 0x6e,
      0x01, 0x05, 0x01, 0x18,
      0x00, 0x02, 0x68, 0x69, 0x68]"

definition chunkedEnvelope :: bytes where
  "chunkedEnvelope =
     [0x00, 0x63, 0x03, 0x6f, 0x72, 0x64, 0x01, 0x01,
      0x0a, 0x74, 0x65, 0x78, 0x74, 0x2f, 0x70, 0x6c, 0x61, 0x69, 0x6e,
      0x00, 0x01, 0x68, 0x01, 0x69, 0x68]"

definition emptyBodyEnvelope :: bytes where
  "emptyBodyEnvelope =
     [0x00, 0x63, 0x03, 0x6f, 0x72, 0x64, 0x01, 0x01,
      0x0a, 0x74, 0x65, 0x78, 0x74, 0x2f, 0x70, 0x6c, 0x61, 0x69, 0x6e,
      0x00, 0x68]"

text \<open>The record that both parsers return for \<open>plainEnvelope\<close>.\<close>

definition plainInscription :: inscription where
  "plainInscription =
     \<lparr>contentType = ''text/plain'',
      fields' = [\<lparr>tag = [0x01],
                  fvalue = [0x74, 0x65, 0x78, 0x74, 0x2f, 0x70, 0x6c, 0x61, 0x69, 0x6e]\<rparr>],
      combinedData = [0x68, 0x69]\<rparr>"

definition plainInscription2 :: inscription2 where
  "plainInscription2 =
     \<lparr>contentType = ''text/plain'',
      fields' = [\<lparr>tag = [0x01],
                  fvalue = [0x74, 0x65, 0x78, 0x74, 0x2f, 0x70, 0x6c, 0x61, 0x69, 0x6e]\<rparr>],
      combinedData = [0x68, 0x69],
      contentEncoding = None\<rparr>"

text \<open>The record that the second parser returns for \<open>badMetadataEnvelope\<close>.\<close>

definition badMetadataInscription :: inscription2 where
  "badMetadataInscription =
     \<lparr>contentType = ''text/plain'',
      fields' = [\<lparr>tag = [0x01],
                  fvalue = [0x74, 0x65, 0x78, 0x74, 0x2f, 0x70, 0x6c, 0x61, 0x69, 0x6e]\<rparr>,
                 \<lparr>tag = [0x05], fvalue = [0x18]\<rparr>],
      combinedData = [0x68, 0x69],
      contentEncoding = None\<rparr>"

section \<open>The body of an envelope, as the specification describes it\<close>

text \<open>
  Section 4.4 of the specification: starting at a cursor, pushdatas are read one after
  the other until the byte at the cursor is OP_ENDIF or the buffer is exhausted.
  \<open>bodyChunks h raw p chunks q\<close>: reading from \<open>p\<close> yields the chunks \<open>chunks\<close>, in
  read order, and stops at \<open>q\<close>.
\<close>

inductive bodyChunks :: "'m helper \<Rightarrow> bytes \<Rightarrow> nat \<Rightarrow> bytes list \<Rightarrow> nat \<Rightarrow> bool"
  for h :: "'m helper" and raw :: bytes where
    stop: "\<not> (p < length raw \<and> raw ! p \<noteq> OP_ENDIF h) \<Longrightarrow> bodyChunks h raw p [] p"
  | push: "p < length raw \<Longrightarrow> raw ! p \<noteq> OP_ENDIF h \<Longrightarrow> readPushdata raw p = Inr (chunk, q) \<Longrightarrow>
           bodyChunks h raw q chunks q' \<Longrightarrow> bodyChunks h raw p (chunk # chunks) q'"

section \<open>Comparing the two parsers\<close>

text \<open>
  What the records of both files have in common: the content type, the fields and the
  results of \<open>getData\<close> and \<open>getDataUri\<close>.
\<close>

definition commonView :: "'a inscription_scheme \<Rightarrow> string \<times> field list \<times> string \<times> string" where
  "commonView r = (contentType r, fields' r, getData r, getDataUri r)"

text \<open>
  \<open>scanned h raw s p\<close>: the scanning loop, started at offset \<open>s\<close>, calls
  \<open>extractInscriptionData\<close> at offset \<open>p\<close> in some iteration.
\<close>

inductive scanned :: "'m helper \<Rightarrow> bytes \<Rightarrow> nat \<Rightarrow> nat \<Rightarrow> bool"
  for h :: "'m helper" and raw :: bytes where
    found: "getNextInscriptionMark h raw s = Some p \<Longrightarrow> scanned h raw s p"
  | later: "getNextInscriptionMark h raw s = Some p' \<Longrightarrow> scanned h raw p' p \<Longrightarrow> scanned h raw s p"

section \<open>Properties of the extraction\<close>

lemma foldl_length_concat:
  "foldl (\<lambda>acc curr. acc + length curr) n data = n + length (concat data)"
  by (induction data arbitrary: n) auto

lemma copySegments_concat:
  "idx + length (concat segs) \<le> length target \<Longrightarrow>
   copySegments segs target idx =
     Inr (take idx target @ concat segs @ drop (idx + length (concat segs)) target)"
proof (induction segs arbitrary: target idx)
  case Nil
  then show ?case by simp
next
  case (Cons seg segs)
  let ?t = "take idx target @ seg @ drop (idx + length seg) target"
  from Cons.prems have fit: "idx + length seg \<le> length target" by simp
  then have s: "setAt target seg idx = Inr ?t" by (simp add: setAt_def)
  from Cons.prems have len: "(idx + length seg) + length (concat segs) \<le> length ?t"
    by simp
  have tk: "take (idx + length seg) ?t = take idx target @ seg"
    using fit by simp
  have dr: "drop (idx + length seg + length (concat segs)) ?t
            = drop (idx + length seg + length (concat segs)) target"
    using fit Cons.prems by (simp add: add.commute add.left_commute)
  show ?case
    using Cons.IH [OF len] s tk dr by (simp add: add.assoc)
qed

lemma combineData_concat: "combineData data = Inr (concat data)"
  by (simp add: combineData_def foldl_length_concat copySegments_concat)


lemma bodyLoop2_chunks:
  "bodyLoop2 h raw p acc = Inr (q, data) \<Longrightarrow> \<exists>chunks. data = acc @ chunks \<and> bodyChunks h raw p chunks q"
proof (induction h raw p acc rule: bodyLoop2.induct)
  case (1 h raw p acc)
  show ?case
  proof (cases "p < length raw \<and> raw ! p \<noteq> OP_ENDIF h")
    case False
    with "1.prems" have "q = p" and "data = acc" by auto
    with False show ?thesis by (auto intro: bodyChunks.stop)
  next
    case True
    with "1.prems" obtain sl p1 where r: "readPushdata raw p = Inr (sl, p1)"
      and rest: "bodyLoop2 h raw p1 (acc @ [sl]) = Inr (q, data)"
      by (auto split: sum.splits)
    from "1.IH" [OF True r refl rest] obtain chunks
      where "data = (acc @ [sl]) @ chunks" and "bodyChunks h raw p1 chunks q" by blast
    with True r show ?thesis by (auto intro: bodyChunks.push)
  qed
qed

lemma fieldsLoop1_eq_fieldsLoop2:
  "map_sum id (\<lambda>(c, fs). (pointer c, fs)) (fieldsLoop1 raw current flds) = fieldsLoop2 raw (pointer current) flds"
proof (induction raw current flds rule: fieldsLoop1.induct)
  case (1 raw current flds)
  show ?case
  proof (cases "pointer current < length raw \<and> raw ! pointer current \<noteq> OP_0")
    case False
    then show ?thesis by auto
  next
    case True
    show ?thesis
    proof (cases "readPushdata raw (pointer current)")
      case (Inl ex)
      with True show ?thesis by (simp add: readPushdata1_def)
    next
      case (Inr a)
      obtain tg p1 where a: "a = (tg, p1)" by (cases a)
      have r1: "readPushdata1 raw (pointer current) = Inr \<lparr>slice = tg, pointer = p1\<rparr>"
        using Inr a by (simp add: readPushdata1_def)
      show ?thesis
      proof (cases "readPushdata raw p1")
        case (Inl ex)
        with True Inr a r1 show ?thesis by (simp add: readPushdata1_def)
      next
        case (Inr b)
        obtain vl p2 where b: "b = (vl, p2)" by (cases b)
        have r2: "readPushdata1 raw (pointer \<lparr>slice = tg, pointer = p1\<rparr>) = Inr \<lparr>slice = vl, pointer = p2\<rparr>"
          using Inr b by (simp add: readPushdata1_def)
        from "1.IH" [OF True r1 r2] True r1 r2 Inr b a \<open>readPushdata raw (pointer current) = Inr a\<close>
        show ?thesis by simp
      qed
    qed
  qed
qed

lemma bodyLoop1_eq_bodyLoop2:
  "map_sum id (\<lambda>(c, d). (pointer c, d)) (bodyLoop1 h raw current data) = bodyLoop2 h raw (pointer current) data"
proof (induction h raw current data rule: bodyLoop1.induct)
  case (1 h raw current data)
  show ?case
  proof (cases "pointer current < length raw \<and> raw ! pointer current \<noteq> OP_ENDIF h")
    case False
    then show ?thesis by auto
  next
    case True
    show ?thesis
    proof (cases "readPushdata raw (pointer current)")
      case (Inl ex)
      with True show ?thesis by (simp add: readPushdata1_def)
    next
      case (Inr a)
      obtain sl p1 where a: "a = (sl, p1)" by (cases a)
      have r1: "readPushdata1 raw (pointer current) = Inr \<lparr>slice = sl, pointer = p1\<rparr>"
        using Inr a by (simp add: readPushdata1_def)
      from "1.IH" [OF True r1] True r1 Inr a show ?thesis by simp
    qed
  qed
qed

lemma readEnvelope1_eq_readEnvelope2: "readEnvelope1 h raw p = readEnvelope2 h raw p"
proof -
  have f: "map_sum id (\<lambda>(c, fs). (pointer c, fs)) (fieldsLoop1 raw \<lparr>slice = [], pointer = p\<rparr> []) = fieldsLoop2 raw p []"
    using fieldsLoop1_eq_fieldsLoop2 [of raw "\<lparr>slice = [], pointer = p\<rparr>" "[]"] by simp
  show ?thesis
  proof (cases "fieldsLoop1 raw \<lparr>slice = [], pointer = p\<rparr> []")
    case (Inl ex)
    with f have "fieldsLoop2 raw p [] = Inl ex" by simp
    with Inl show ?thesis by (simp add: readEnvelope1_def readEnvelope2_def)
  next
    case (Inr a)
    obtain current flds where a: "a = (current, flds)" by (cases a)
    with f Inr have f2: "fieldsLoop2 raw p [] = Inr (pointer current, flds)" by simp
    let ?c = "if pointer current < length raw \<and> raw ! pointer current = OP_0
                   then \<lparr>slice = [], pointer = pointer current + 1\<rparr> else current"
    let ?q = "if pointer current < length raw \<and> raw ! pointer current = OP_0
                   then pointer current + 1 else pointer current"
    have pc: "pointer ?c = ?q" by simp
    have b: "map_sum id (\<lambda>(c, d). (pointer c, d)) (bodyLoop1 h raw ?c []) = bodyLoop2 h raw ?q []"
      using bodyLoop1_eq_bodyLoop2 [of h raw ?c "[]"] unfolding pc .
    show ?thesis
    proof (cases "bodyLoop1 h raw ?c []")
      case (Inl ex)
      with b have "bodyLoop2 h raw ?q [] = Inl ex" by simp
      with Inl Inr a f2 show ?thesis by (simp add: readEnvelope1_def readEnvelope2_def)
    next
      case (Inr b')
      obtain c' data where b': "b' = (c', data)" by (cases b')
      with b Inr have "bodyLoop2 h raw ?q [] = Inr (pointer c', data)" by simp
      with Inr b' \<open>fieldsLoop1 raw \<lparr>slice = [], pointer = p\<rparr> [] = Inr a\<close> a f2 show ?thesis
        by (simp add: readEnvelope1_def readEnvelope2_def)
    qed
  qed
qed

lemma single_byte_tag:
  "t < 256 \<Longrightarrow> (length tg = Suc 0 \<and> unat (tg ! 0) = t) = (tg = [of_nat t :: byte])"
proof -
  assume t: "t < 256"
  then have u: "unat (of_nat t :: byte) = t"
    by (simp add: unat_of_nat take_bit_nat_eq_self)
  show ?thesis
  proof (cases tg)
    case Nil
    then show ?thesis by simp
  next
    case (Cons b bs)
    then show ?thesis using u by (cases bs) auto
  qed
qed

lemma find_content_type:
  "List.find (\<lambda>x. length (tag x) = 1 \<and> unat (tag x ! 0) = content_type) flds =
   List.find (\<lambda>x. tag x = [of_nat content_type]) flds"
proof (induction flds)
  case Nil
  show ?case by simp
next
  case (Cons f flds)
  have "(length (tag f) = Suc 0 \<and> unat (tag f ! 0) = content_type) = (tag f = [of_nat content_type])"
    by (rule single_byte_tag) (simp add: content_type_def)
  with Cons show ?case by simp
qed

lemma tryExtract1_known_field:
  "tryExtract1 h raw p =
     (case readEnvelope2 h raw p of
        Inl ex \<Rightarrow> Inl ex
      | Inr (flds, combined) \<Rightarrow>
          (case getKnownFieldValue flds content_type of
             None \<Rightarrow> Inr None
           | Some v \<Rightarrow>
               Inr (Some \<lparr>contentType = uint8ArrayToSingleByteChars v,
                          fields' = flds, combinedData = combined\<rparr>)))"
  unfolding tryExtract1_def readEnvelope1_eq_readEnvelope2 find_content_type getKnownFieldValue_def
  by (simp split: sum.splits option.splits)

lemma getKnownFieldValue_Some:
  "getKnownFieldValue flds t = Some v \<Longrightarrow>
   \<exists>f. f \<in> set flds \<and> tag f = [of_nat t] \<and> fvalue f = v"
  by (induction flds) (auto simp: getKnownFieldValue_def split: if_splits)

lemma getKnownFieldValue_None:
  "(getKnownFieldValue flds t = None) = (\<forall>f \<in> set flds. tag f \<noteq> [of_nat t])"
  by (auto simp: getKnownFieldValue_def find_None_iff)

lemma extractInscriptionData1_Some:
  assumes "extractInscriptionData1 h raw p = Some r"
  shows "\<exists>v. readEnvelope1 h raw p = Inr (fields' r, combinedData r) \<and>
             getKnownFieldValue (fields' r) content_type = Some v \<and>
             contentType r = uint8ArrayToSingleByteChars v"
  using assms
  by (auto simp: extractInscriptionData1_def tryExtract1_known_field readEnvelope1_eq_readEnvelope2
      split: sum.splits option.splits)

lemma extractInscriptionData2_Some:
  assumes "extractInscriptionData2 h raw p = Some r"
  shows "\<exists>v body. readEnvelope2 h raw p = Inr (fields' r, body) \<and>
             getKnownFieldValue (fields' r) content_type = Some v \<and>
             contentType r = uint8ArrayToSingleByteChars v \<and>
             contentEncoding r =
               map_option uint8ArrayToSingleByteChars (getKnownFieldValue (fields' r) content_encoding) \<and>
             (if contentEncoding r = Some ''br''
              then brotliDecodeUint8Array h body = Inr (combinedData r)
              else combinedData r = body)"
  using assms
  by (auto simp: extractInscriptionData2_def tryExtract2_def Let_def
      split: sum.splits option.splits if_splits)

lemma extract1_without_content_type:
  assumes "readEnvelope1 h raw p = Inr (flds, body)" and "\<forall>f \<in> set flds. tag f \<noteq> [1]"
  shows "tryExtract1 h raw p = Inr None"
proof -
  from assms(2) have "getKnownFieldValue flds content_type = None"
    by (simp add: getKnownFieldValue_None content_type_def)
  with assms(1) show ?thesis
    by (simp add: tryExtract1_known_field readEnvelope1_eq_readEnvelope2)
qed

lemma extract2_without_content_type:
  assumes "readEnvelope2 h raw p = Inr (flds, body)" and "\<forall>f \<in> set flds. tag f \<noteq> [1]"
  shows "tryExtract2 h raw p = Inr None"
proof -
  from assms(2) have "getKnownFieldValue flds content_type = None"
    by (simp add: getKnownFieldValue_None content_type_def)
  with assms(1) show ?thesis
    by (simp add: tryExtract2_def)
qed

section \<open>The scanning loop and the loop over the inputs\<close>

lemma find_upt_Some:
  "List.find P [a ..< b] = Some i \<Longrightarrow> a \<le> i \<and> i < b \<and> P i"
  by (auto simp: find_Some_iff)

lemma getNextInscriptionMark_bounds:
  assumes "getNextInscriptionMark h raw s = Some p"
  shows "s + length (inscriptionMark h) \<le> p \<and> p \<le> length raw"
proof -
  let ?m = "inscriptionMark h"
  from assms obtain i
    where i: "List.find (\<lambda>index. take (length ?m) (drop index raw) = ?m)
                [s ..< Suc (length raw) - length ?m] = Some i"
      and p: "p = i + length ?m"
    by (auto simp: getNextInscriptionMark_def)
  from find_upt_Some [OF i] have "s \<le> i" and "i < Suc (length raw) - length ?m"
    by auto
  with p show ?thesis by arith
qed

lemma scanLoop_returns:
  assumes "inscriptionMark h \<noteq> []"
  shows "\<exists>rs. scanLoop h extr raw s acc = Some rs"
proof (induction "length raw - s" arbitrary: s acc rule: less_induct)
  case less
  show ?case
  proof (cases "getNextInscriptionMark h raw s")
    case None
    then show ?thesis by (subst scanLoop.simps) simp
  next
    case (Some p)
    from getNextInscriptionMark_bounds [OF Some] assms
    have "length raw - p < length raw - s"
      by (cases "inscriptionMark h") auto
    from less [OF this] Some show ?thesis
      by (subst scanLoop.simps) simp
  qed
qed

lemma scanLoop_step:
  "getNextInscriptionMark h raw s = Some p \<Longrightarrow>
   scanLoop h ex raw s acc =
     scanLoop h ex raw p (case ex raw p of None \<Rightarrow> acc | Some i \<Rightarrow> acc @ [i])"
  by (subst scanLoop.simps) simp

lemma scanLoop_stop:
  "getNextInscriptionMark h raw s = None \<Longrightarrow> scanLoop h ex raw s acc = Some acc"
  by (subst scanLoop.simps) simp

lemma scanLoop_origin:
  assumes "scanLoop h ex raw s acc = Some rs" and "r \<in> set rs"
  shows "r \<in> set acc \<or> (\<exists>s' p. getNextInscriptionMark h raw s' = Some p \<and> ex raw p = Some r)"
  using assms
proof (induction h ex raw s acc rs rule: scanLoop.raw_induct [rotated 1, consumes 1])
  case (1 f h ex raw s acc rs)
  show ?case
  proof (cases "getNextInscriptionMark h raw s")
    case None
    with "1.hyps" "1.prems" show ?thesis by simp
  next
    case (Some p)
    with "1.hyps"
    have "f h ex raw p (case ex raw p of None \<Rightarrow> acc | Some i \<Rightarrow> acc @ [i]) = Some rs"
      by simp
    from "1.IH" [OF this "1.prems"] Some show ?thesis
      by (auto split: option.splits)
  qed
qed

lemma scanLoop_related:
  assumes "scanLoop h ex1 raw s acc1 = Some rs1"
    and "\<And>p. scanned h raw s p \<Longrightarrow> map_option v1 (ex1 raw p) = map_option v2 (ex2 raw p)"
    and "map v1 acc1 = map v2 acc2"
  shows "\<exists>rs2. scanLoop h ex2 raw s acc2 = Some rs2 \<and> map v1 rs1 = map v2 rs2"
  using assms
proof (induction h ex1 raw s acc1 rs1 arbitrary: acc2 rule: scanLoop.raw_induct [rotated 1, consumes 1])
  case (1 f h ex1 raw s acc1 rs1)
  show ?case
  proof (cases "getNextInscriptionMark h raw s")
    case None
    with "1.hyps" have "rs1 = acc1" by simp
    with None "1.prems"(2) show ?thesis by (simp add: scanLoop_stop)
  next
    case (Some p)
    let ?a1 = "case ex1 raw p of None \<Rightarrow> acc1 | Some i \<Rightarrow> acc1 @ [i]"
    let ?a2 = "case ex2 raw p of None \<Rightarrow> acc2 | Some i \<Rightarrow> acc2 @ [i]"
    from Some "1.hyps" have run: "f h ex1 raw p ?a1 = Some rs1" by simp
    from "1.prems"(1) [OF scanned.found [OF Some]] "1.prems"(2) have acc: "map v1 ?a1 = map v2 ?a2"
      by (cases "ex1 raw p"; cases "ex2 raw p") auto
    have "\<exists>rs2. scanLoop h ex2 raw p ?a2 = Some rs2 \<and> map v1 rs1 = map v2 rs2"
    proof (rule "1.IH" [OF run _ acc])
      fix p''
      assume "scanned h raw p p''"
      from "1.prems"(1) [OF scanned.later [OF Some this]]
      show "map_option v1 (ex1 raw p'') = map_option v2 (ex2 raw p'')" .
    qed
    then obtain rs2 where "scanLoop h ex2 raw p ?a2 = Some rs2" and "map v1 rs1 = map v2 rs2"
      by blast
    with Some show ?thesis by (simp add: scanLoop_step)
  qed
qed

lemma scanLoop_agree:
  assumes "\<And>p. scanned h raw s p \<Longrightarrow> map_option v1 (ex1 raw p) = map_option v2 (ex2 raw p)"
  shows "(scanLoop h ex1 raw s [] = None \<and> scanLoop h ex2 raw s [] = None) \<or>
         (\<exists>rs1 rs2. scanLoop h ex1 raw s [] = Some rs1 \<and> scanLoop h ex2 raw s [] = Some rs2 \<and>
            map v1 rs1 = map v2 rs2)"
proof (cases "scanLoop h ex1 raw s []")
  case (Some rs1)
  have "\<exists>rs2. scanLoop h ex2 raw s [] = Some rs2 \<and> map v1 rs1 = map v2 rs2"
    by (rule scanLoop_related [where ?ex1.0 = ex1 and ?acc1.0 = "[]"]) (simp_all add: Some assms)
  with Some show ?thesis by auto
next
  case None
  show ?thesis
  proof (cases "scanLoop h ex2 raw s []")
    case (Some rs2)
    have "\<exists>rs1. scanLoop h ex1 raw s [] = Some rs1 \<and> map v2 rs2 = map v1 rs1"
      by (rule scanLoop_related [where ?ex1.0 = ex2 and ?acc1.0 = "[]"]) (simp_all add: Some assms)
    with None show ?thesis by simp
  next
    case None
    with \<open>scanLoop h ex1 raw s [] = None\<close> show ?thesis by simp
  qed
qed

lemma scanLoop_keeps:
  assumes "scanLoop h ex raw s acc = Some rs"
  shows "set acc \<subseteq> set rs"
  using assms
proof (induction h ex raw s acc rs rule: scanLoop.raw_induct [rotated 1, consumes 1])
  case (1 f h ex raw s acc rs)
  show ?case
  proof (cases "getNextInscriptionMark h raw s")
    case None
    with "1.hyps" show ?thesis by simp
  next
    case (Some p)
    with "1.hyps"
    have "f h ex raw p (case ex raw p of None \<Rightarrow> acc | Some i \<Rightarrow> acc @ [i]) = Some rs"
      by simp
    from "1.IH" [OF this] show ?thesis
      by (auto split: option.splits)
  qed
qed

lemma scanLoop_complete:
  assumes "scanned h raw s p" and "ex raw p = Some r" and "scanLoop h ex raw s acc = Some rs"
  shows "r \<in> set rs"
  using assms
proof (induction arbitrary: acc rule: scanned.induct)
  case (found s p)
  from found(1,2,3) have "scanLoop h ex raw p (acc @ [r]) = Some rs"
    by (simp add: scanLoop_step)
  from scanLoop_keeps [OF this] show ?case by simp
next
  case (later s p' p)
  from later(1) later.prems(2)
  have "scanLoop h ex raw p' (case ex raw p' of None \<Rightarrow> acc | Some i \<Rightarrow> acc @ [i]) = Some rs"
    by (simp add: scanLoop_step)
  from later.IH [OF later.prems(1) this] show ?case .
qed


lemma vinLoop_origin:
  assumes "vinLoop h ex vs acc = Some (Inr rs)" and "r \<in> set rs"
  shows "r \<in> set acc \<or> (\<exists>raw s p. getNextInscriptionMark h raw s = Some p \<and> ex raw p = Some r)"
  using assms
proof (induction vs arbitrary: acc)
  case Nil
  then show ?case by simp
next
  case (Cons v vs)
  show ?case
  proof (cases "witness v")
    case None
    with Cons.prems have "vinLoop h ex vs acc = Some (Inr rs)" by simp
    from Cons.IH [OF this Cons.prems(2)] show ?thesis .
  next
    case (Some w)
    show ?thesis
    proof (cases "parseInscriptionsWithinWitness h ex w")
      case None
      with Some Cons.prems show ?thesis by simp
    next
      case outer: (Some res)
      show ?thesis
      proof (cases res)
        case (Inl ex)
        with outer Some Cons.prems show ?thesis by simp
      next
        case (Inr found)
        show ?thesis
        proof (cases found)
          case None
          with Inr outer Some Cons.prems have "vinLoop h ex vs acc = Some (Inr rs)" by simp
          from Cons.IH [OF this Cons.prems(2)] show ?thesis .
        next
          case (Some vinInscriptions)
          with Inr outer \<open>witness v = Some w\<close> Cons.prems
          have "vinLoop h ex vs (acc @ vinInscriptions) = Some (Inr rs)" by simp
          from Cons.IH [OF this Cons.prems(2)]
          have d: "r \<in> set acc \<or> r \<in> set vinInscriptions \<or>
                (\<exists>raw s p. getNextInscriptionMark h raw s = Some p \<and> ex raw p = Some r)" by auto
          from outer Inr Some obtain raw where "scanLoop h ex raw 0 [] = Some vinInscriptions"
            by (auto simp: parseInscriptionsWithinWitness_def split: sum.splits option.splits if_splits)
          from scanLoop_origin [OF this, of r] have "r \<in> set vinInscriptions \<Longrightarrow>
             (\<exists>raw s p. getNextInscriptionMark h raw s = Some p \<and> ex raw p = Some r)" by fastforce
          with d show ?thesis by blast
        qed
      qed
    qed
  qed
qed

lemma scanned_increases:
  assumes "inscriptionMark h \<noteq> []" and "scanned h raw s p"
  shows "s < p \<and> p \<le> length raw"
  using assms(2)
proof (induction rule: scanned.induct)
  case (found s p)
  from getNextInscriptionMark_bounds [OF found] assms(1) show ?case
    by (cases "inscriptionMark h") auto
next
  case (later s p' p)
  from getNextInscriptionMark_bounds [OF later(1)] assms(1) have "s < p'"
    by (cases "inscriptionMark h") auto
  with later.IH show ?case by simp
qed

text \<open>
  C5. The \<open>while (true)\<close> loop of \<open>parseInscriptionsWithinWitness\<close> ends on every byte
  buffer, for every accumulator and start offset. The loop resumes each scan at the
  offset the scanner returned last; every offset the scanner returns lies strictly beyond
  the offset that scan started at and within the buffer, so the offsets of the successive
  iterations strictly increase. The envelope mark is not empty.
\<close>

theorem scanning_loop_terminates:
  assumes "inscriptionMark h \<noteq> []"
  shows "(\<exists>rs. scanLoop h extr raw startPosition inscriptions = Some rs) \<and>
         (\<forall>p. getNextInscriptionMark h raw startPosition = Some p \<longrightarrow>
              startPosition < p \<and> p \<le> length raw) \<and>
         (\<forall>s p. scanned h raw s p \<longrightarrow> s < p \<and> p \<le> length raw)"
proof (intro conjI allI impI)
  show "\<exists>rs. scanLoop h extr raw startPosition inscriptions = Some rs"
    by (rule scanLoop_returns [OF assms])
next
  fix p
  assume "getNextInscriptionMark h raw startPosition = Some p"
  from getNextInscriptionMark_bounds [OF this] assms
  show "startPosition < p" and "p \<le> length raw"
    by (cases "inscriptionMark h"; simp)+
next
  fix s p
  assume "scanned h raw s p"
  from scanned_increases [OF assms this]
  show "s < p" and "p \<le> length raw"
    by simp_all
qed

text \<open>
  A buffer of two marks, each followed by a pushdata that announces more bytes than
  remain: the loop ends without a record, and the scans return the offsets 6 and 14.
\<close>

theorem scanning_loop_terminates_witness:
  "inscriptionMark ordHelper \<noteq> [] \<and>
   (\<exists>rs. scanLoop ordHelper (extractInscriptionData2 ordHelper)
           [0x00, 0x63, 0x03, 0x6f, 0x72, 0x64, 0x4c, 0xff,
            0x00, 0x63, 0x03, 0x6f, 0x72, 0x64, 0x05] 0 [] = Some rs) \<and>
   scanLoop ordHelper (extractInscriptionData2 ordHelper)
           [0x00, 0x63, 0x03, 0x6f, 0x72, 0x64, 0x4c, 0xff,
            0x00, 0x63, 0x03, 0x6f, 0x72, 0x64, 0x05] 0 [] = Some [] \<and>
   getNextInscriptionMark ordHelper
           [0x00, 0x63, 0x03, 0x6f, 0x72, 0x64, 0x4c, 0xff,
            0x00, 0x63, 0x03, 0x6f, 0x72, 0x64, 0x05] 0 = Some 6 \<and>
   getNextInscriptionMark ordHelper
           [0x00, 0x63, 0x03, 0x6f, 0x72, 0x64, 0x4c, 0xff,
            0x00, 0x63, 0x03, 0x6f, 0x72, 0x64, 0x05] 6 = Some 14 \<and>
   scanned ordHelper
           [0x00, 0x63, 0x03, 0x6f, 0x72, 0x64, 0x4c, 0xff,
            0x00, 0x63, 0x03, 0x6f, 0x72, 0x64, 0x05] 0 14 \<and>
   (0 :: nat) < 14 \<and>
   14 \<le> length [0x00, 0x63, 0x03, 0x6f, 0x72, 0x64, 0x4c, 0xff,
            0x00, 0x63, 0x03, 0x6f, 0x72, 0x64, 0x05 :: byte]"
proof -
  let ?raw = "[0x00, 0x63, 0x03, 0x6f, 0x72, 0x64, 0x4c, 0xff,
            0x00, 0x63, 0x03, 0x6f, 0x72, 0x64, 0x05] :: bytes"
  have m: "inscriptionMark ordHelper \<noteq> []"
    by (simp add: ordHelper_def)
  have l: "scanLoop ordHelper (extractInscriptionData2 ordHelper) ?raw 0 [] = Some []"
    by code_simp
  have g0: "getNextInscriptionMark ordHelper ?raw 0 = Some 6"
    by code_simp
  have g6: "getNextInscriptionMark ordHelper ?raw 6 = Some 14"
    by code_simp
  have s: "scanned ordHelper ?raw 0 14"
    by (rule scanned.later [OF g0 scanned.found [OF g6]])
  note r = scanning_loop_terminates [OF m, where raw = ?raw and startPosition = 0
      and inscriptions = "[]" and extr = "extractInscriptionData2 ordHelper"]
  note r1 = r [THEN conjunct1]
  from r s have r3: "(0 :: nat) < 14 \<and> 14 \<le> length ?raw"
    by blast
  show ?thesis
    by (intro conjI m r1 l g0 g6 s r3 [THEN conjunct1] r3 [THEN conjunct2])
qed

section \<open>Exceptions and the entry point\<close>





section \<open>Content type\<close>

text \<open>
  C2. Every record in the list that \<open>parseInscriptions\<close> returns, in both files, has a
  field whose tag is the single byte 1, and its content type is the value of such a field
  read as single-byte characters. An envelope whose fields have no tag 1 makes the
  \<open>try\<close> block return \<open>null\<close> without an exception, so it contributes no record; and
  when extraction at a mark yields no record, the scanning loop goes on from that mark
  with the records collected so far unchanged.
\<close>

theorem records_have_content_type:
  "(parseInscriptions1 h t = Some (Inr rs1) \<and> r1 \<in> set rs1 \<longrightarrow>
      (\<exists>f. f \<in> set (fields' r1) \<and> tag f = [1] \<and>
           contentType r1 = uint8ArrayToSingleByteChars (fvalue f))) \<and>
   (parseInscriptions2 h t = Some (Inr rs2) \<and> r2 \<in> set rs2 \<longrightarrow>
      (\<exists>f. f \<in> set (fields' r2) \<and> tag f = [1] \<and>
           contentType r2 = uint8ArrayToSingleByteChars (fvalue f))) \<and>
   (readEnvelope1 h raw p = Inr (flds, body) \<and> (\<forall>f \<in> set flds. tag f \<noteq> [1]) \<longrightarrow>
      tryExtract1 h raw p = Inr None \<and> extractInscriptionData1 h raw p = None) \<and>
   (readEnvelope2 h raw p = Inr (flds, body) \<and> (\<forall>f \<in> set flds. tag f \<noteq> [1]) \<longrightarrow>
      tryExtract2 h raw p = Inr None \<and> extractInscriptionData2 h raw p = None) \<and>
   (getNextInscriptionMark h raw s = Some p \<and> ex raw p = None \<longrightarrow>
      scanLoop h ex raw s acc = scanLoop h ex raw p acc)"
proof (intro conjI impI)
  assume a: "parseInscriptions1 h t = Some (Inr rs1) \<and> r1 \<in> set rs1"
  then have "vinLoop h (extractInscriptionData1 h) (vin t) [] = Some (Inr rs1)"
    by (simp add: parseInscriptions1_def parseInscriptionsWith_def)
  from vinLoop_origin [OF this, of r1] a
  obtain raw' p' where "extractInscriptionData1 h raw' p' = Some r1" by auto
  from extractInscriptionData1_Some [OF this]
  obtain v where "getKnownFieldValue (fields' r1) content_type = Some v"
    and c: "contentType r1 = uint8ArrayToSingleByteChars v" by blast
  from getKnownFieldValue_Some [OF this(1)] c
  show "\<exists>f. f \<in> set (fields' r1) \<and> tag f = [1] \<and>
           contentType r1 = uint8ArrayToSingleByteChars (fvalue f)"
    by (auto simp: content_type_def)
next
  assume a: "parseInscriptions2 h t = Some (Inr rs2) \<and> r2 \<in> set rs2"
  then have "vinLoop h (extractInscriptionData2 h) (vin t) [] = Some (Inr rs2)"
    by (simp add: parseInscriptions2_def parseInscriptionsWith_def)
  from vinLoop_origin [OF this, of r2] a
  obtain raw' p' where "extractInscriptionData2 h raw' p' = Some r2" by auto
  from extractInscriptionData2_Some [OF this]
  obtain v where "getKnownFieldValue (fields' r2) content_type = Some v"
    and c: "contentType r2 = uint8ArrayToSingleByteChars v" by blast
  from getKnownFieldValue_Some [OF this(1)] c
  show "\<exists>f. f \<in> set (fields' r2) \<and> tag f = [1] \<and>
           contentType r2 = uint8ArrayToSingleByteChars (fvalue f)"
    by (auto simp: content_type_def)
next
  assume a: "readEnvelope1 h raw p = Inr (flds, body) \<and> (\<forall>f \<in> set flds. tag f \<noteq> [1])"
  then have "tryExtract1 h raw p = Inr None"
    by (blast intro: extract1_without_content_type)
  then show "tryExtract1 h raw p = Inr None" and "extractInscriptionData1 h raw p = None"
    by (simp_all add: extractInscriptionData1_def)
next
  assume a: "readEnvelope2 h raw p = Inr (flds, body) \<and> (\<forall>f \<in> set flds. tag f \<noteq> [1])"
  then have "tryExtract2 h raw p = Inr None"
    by (blast intro: extract2_without_content_type)
  then show "tryExtract2 h raw p = Inr None" and "extractInscriptionData2 h raw p = None"
    by (simp_all add: extractInscriptionData2_def)
next
  assume "getNextInscriptionMark h raw s = Some p \<and> ex raw p = None"
  then show "scanLoop h ex raw s acc = scanLoop h ex raw p acc"
    by (simp add: scanLoop_step)
qed


text \<open>
  A witness of two envelopes: the first has a metadata field only, the second is
  \<open>plainEnvelope\<close>. Only the second yields a record.
\<close>

theorem records_have_content_type_witness:
  "parseInscriptions1 ordHelper \<lparr>vin = [\<lparr>witness = Some [untypedEnvelopeHex, plainEnvelopeHex]\<rparr>]\<rparr>
     = Some (Inr [plainInscription]) \<and>
   (\<exists>f. f \<in> set (fields' plainInscription) \<and> tag f = [1] \<and>
        contentType plainInscription = uint8ArrayToSingleByteChars (fvalue f)) \<and>
   parseInscriptions2 ordHelper \<lparr>vin = [\<lparr>witness = Some [untypedEnvelopeHex, plainEnvelopeHex]\<rparr>]\<rparr>
     = Some (Inr [plainInscription2]) \<and>
   (\<exists>f. f \<in> set (fields' plainInscription2) \<and> tag f = [1] \<and>
        contentType plainInscription2 = uint8ArrayToSingleByteChars (fvalue f)) \<and>
   readEnvelope1 ordHelper (untypedEnvelope @ plainEnvelope) 6
     = Inr ([\<lparr>tag = [5], fvalue = [7]\<rparr>], [0x68, 0x69]) \<and>
   tryExtract1 ordHelper (untypedEnvelope @ plainEnvelope) 6 = Inr None \<and>
   extractInscriptionData1 ordHelper (untypedEnvelope @ plainEnvelope) 6 = None \<and>
   readEnvelope2 ordHelper (untypedEnvelope @ plainEnvelope) 6
     = Inr ([\<lparr>tag = [5], fvalue = [7]\<rparr>], [0x68, 0x69]) \<and>
   tryExtract2 ordHelper (untypedEnvelope @ plainEnvelope) 6 = Inr None \<and>
   extractInscriptionData2 ordHelper (untypedEnvelope @ plainEnvelope) 6 = None \<and>
   getNextInscriptionMark ordHelper (untypedEnvelope @ plainEnvelope) 0 = Some 6 \<and>
   scanLoop ordHelper (extractInscriptionData2 ordHelper) (untypedEnvelope @ plainEnvelope) 0 []
     = scanLoop ordHelper (extractInscriptionData2 ordHelper) (untypedEnvelope @ plainEnvelope) 6 []"
proof -
  let ?t = "\<lparr>vin = [\<lparr>witness = Some [untypedEnvelopeHex, plainEnvelopeHex]\<rparr>]\<rparr>"
  let ?raw = "untypedEnvelope @ plainEnvelope"
  let ?flds = "[\<lparr>tag = [5], fvalue = [7]\<rparr>]"
  have p1: "parseInscriptions1 ordHelper ?t = Some (Inr [plainInscription])"
    by code_simp
  have p2: "parseInscriptions2 ordHelper ?t = Some (Inr [plainInscription2])"
    by code_simp
  have e1: "readEnvelope1 ordHelper ?raw 6 = Inr (?flds, [0x68, 0x69])"
    by code_simp
  have e2: "readEnvelope2 ordHelper ?raw 6 = Inr (?flds, [0x68, 0x69])"
    by code_simp
  have nt: "\<forall>f \<in> set ?flds. tag f \<noteq> [1]"
    by simp
  have g: "getNextInscriptionMark ordHelper ?raw 0 = Some 6"
    by code_simp
  note r = records_have_content_type [of ordHelper ?t "[plainInscription]" plainInscription
      "[plainInscription2]" plainInscription2 ?raw 6 ?flds "[0x68, 0x69]" 0
      "extractInscriptionData2 ordHelper" "[]"]
  from r p1 have c1: "\<exists>f. f \<in> set (fields' plainInscription) \<and> tag f = [1] \<and>
        contentType plainInscription = uint8ArrayToSingleByteChars (fvalue f)"
    by simp
  from r p2 have c2: "\<exists>f. f \<in> set (fields' plainInscription2) \<and> tag f = [1] \<and>
        contentType plainInscription2 = uint8ArrayToSingleByteChars (fvalue f)"
    by simp
  from r e1 nt have x1: "tryExtract1 ordHelper ?raw 6 = Inr None \<and>
      extractInscriptionData1 ordHelper ?raw 6 = None"
    by blast
  from r e2 nt have x2: "tryExtract2 ordHelper ?raw 6 = Inr None \<and>
      extractInscriptionData2 ordHelper ?raw 6 = None"
    by blast
  from r g x2 have l: "scanLoop ordHelper (extractInscriptionData2 ordHelper) ?raw 0 []
     = scanLoop ordHelper (extractInscriptionData2 ordHelper) ?raw 6 []"
    by blast
  from p1 p2 c1 c2 e1 e2 x1 x2 g l show ?thesis
    by blast
qed

section \<open>Truncated pushdata\<close>

lemma readEnvelope_throws:
  "readEnvelope2 h raw p = Inl ex \<Longrightarrow> tryExtract1 h raw p = Inl ex \<and> tryExtract2 h raw p = Inl ex"
  by (simp add: tryExtract1_known_field tryExtract2_def)

lemma readPushdata_beyond_end:
  "length raw \<le> p \<Longrightarrow> readPushdata raw p = Inl TruncatedInput"
  by (simp add: readPushdata_def)

lemma readPushdata_direct_truncated:
  assumes "p < length raw" and "1 \<le> unat (raw ! p)" and "unat (raw ! p) \<le> 75"
    and "length raw < p + 1 + unat (raw ! p)"
  shows "readPushdata raw p = Inl TruncatedInput"
  using assms by (simp add: readPushdata_def readBytes_def Let_def)

lemma fieldsLoop2_throws_origin:
  "fieldsLoop2 raw p flds = Inl ex \<Longrightarrow> \<exists>q. readPushdata raw q = Inl ex"
proof (induction raw p flds rule: fieldsLoop2.induct)
  case (1 raw p flds)
  show ?case
  proof (cases "p < length raw \<and> raw ! p \<noteq> OP_0")
    case False
    with "1.prems" show ?thesis by simp
  next
    case True
    show ?thesis
    proof (cases "readPushdata raw p")
      case (Inl e)
      with True "1.prems" show ?thesis by auto
    next
      case (Inr a)
      obtain tg p1 where a: "a = (tg, p1)" by (cases a)
      show ?thesis
      proof (cases "readPushdata raw p1")
        case (Inl e)
        with True Inr a "1.prems" show ?thesis by auto
      next
        case r2: (Inr b)
        obtain vl p2 where b: "b = (vl, p2)" by (cases b)
        from True Inr a r2 b "1.prems"
        have "fieldsLoop2 raw p2 (flds @ [\<lparr>tag = tg, fvalue = vl\<rparr>]) = Inl ex" by simp
        from "1.IH" [OF True Inr a [symmetric] r2 b [symmetric] this] show ?thesis .
      qed
    qed
  qed
qed

lemma bodyLoop2_throws_origin:
  "bodyLoop2 h raw p data = Inl ex \<Longrightarrow> \<exists>q. readPushdata raw q = Inl ex"
proof (induction h raw p data rule: bodyLoop2.induct)
  case (1 h raw p data)
  show ?case
  proof (cases "p < length raw \<and> raw ! p \<noteq> OP_ENDIF h")
    case False
    with "1.prems" show ?thesis by simp
  next
    case True
    show ?thesis
    proof (cases "readPushdata raw p")
      case (Inl e)
      with True "1.prems" show ?thesis by auto
    next
      case (Inr a)
      obtain sl p1 where a: "a = (sl, p1)" by (cases a)
      from True Inr a "1.prems" have "bodyLoop2 h raw p1 (data @ [sl]) = Inl ex" by simp
      from "1.IH" [OF True Inr a [symmetric] this] show ?thesis .
    qed
  qed
qed

lemma readEnvelope2_throws_origin:
  assumes "readEnvelope2 h raw p = Inl ex"
  shows "\<exists>q. readPushdata raw q = Inl ex"
proof (cases "fieldsLoop2 raw p []")
  case (Inl e)
  with assms have "e = ex" by (simp add: readEnvelope2_def del: fieldsLoop2.simps)
  with Inl fieldsLoop2_throws_origin show ?thesis by blast
next
  case (Inr a)
  obtain q flds where a: "a = (q, flds)" by (cases a)
  let ?b = "if q < length raw \<and> raw ! q = OP_0 then q + 1 else q"
  show ?thesis
  proof (cases "bodyLoop2 h raw ?b []")
    case (Inl e)
    with assms Inr a have "e = ex"
      by (simp add: readEnvelope2_def del: fieldsLoop2.simps bodyLoop2.simps)
    with Inl bodyLoop2_throws_origin show ?thesis by blast
  next
    case b: (Inr c)
    obtain q' data where "c = (q', data)" by (cases c)
    with assms Inr a b show ?thesis
      by (simp add: readEnvelope2_def combineData_concat del: fieldsLoop2.simps bodyLoop2.simps)
  qed
qed

text \<open>
  C4. When the scanner finds a mark and reading the envelope there fails with
  \<open>TruncatedInput\<close> (a pushdata announces more bytes than remain, or the cursor is at
  or beyond the end of the buffer), the failure is that of a read of the pushdata reader,
  extraction yields no record, and the scanning loop continues from that mark with its
  list of records unchanged, in both files. Every record that extraction yields at an
  offset the loop visits afterwards is in the list the loop returns.
\<close>

theorem truncated_envelope_is_skipped:
  assumes "getNextInscriptionMark h raw s = Some p"
    and "readEnvelope1 h raw p = Inl TruncatedInput \<or> readEnvelope2 h raw p = Inl TruncatedInput"
  shows "(\<exists>q. readPushdata raw q = Inl TruncatedInput) \<and>
         extractInscriptionData1 h raw p = None \<and>
         extractInscriptionData2 h raw p = None \<and>
         scanLoop h (extractInscriptionData1 h) raw s acc1
           = scanLoop h (extractInscriptionData1 h) raw p acc1 \<and>
         scanLoop h (extractInscriptionData2 h) raw s acc2
           = scanLoop h (extractInscriptionData2 h) raw p acc2 \<and>
         (\<forall>p' r rs. scanned h raw p p' \<and> extractInscriptionData1 h raw p' = Some r \<and>
            scanLoop h (extractInscriptionData1 h) raw s acc1 = Some rs \<longrightarrow> r \<in> set rs) \<and>
         (\<forall>p' r rs. scanned h raw p p' \<and> extractInscriptionData2 h raw p' = Some r \<and>
            scanLoop h (extractInscriptionData2 h) raw s acc2 = Some rs \<longrightarrow> r \<in> set rs)"
proof -
  from assms(2) have e: "readEnvelope2 h raw p = Inl TruncatedInput"
    by (simp add: readEnvelope1_eq_readEnvelope2)
  from readEnvelope_throws [OF e]
  have n: "extractInscriptionData1 h raw p = None" "extractInscriptionData2 h raw p = None"
    by (simp_all add: extractInscriptionData1_def extractInscriptionData2_def)
  have c1: "\<forall>p' r rs. scanned h raw p p' \<and> extractInscriptionData1 h raw p' = Some r \<and>
            scanLoop h (extractInscriptionData1 h) raw s acc1 = Some rs \<longrightarrow> r \<in> set rs"
  proof (intro allI impI, elim conjE)
    fix p' r rs
    assume a1: "scanned h raw p p'" and a2: "extractInscriptionData1 h raw p' = Some r"
      and a3: "scanLoop h (extractInscriptionData1 h) raw s acc1 = Some rs"
    show "r \<in> set rs"
      by (rule scanLoop_complete [OF scanned.later [OF assms(1) a1] a2 a3])
  qed
  have c2: "\<forall>p' r rs. scanned h raw p p' \<and> extractInscriptionData2 h raw p' = Some r \<and>
            scanLoop h (extractInscriptionData2 h) raw s acc2 = Some rs \<longrightarrow> r \<in> set rs"
  proof (intro allI impI, elim conjE)
    fix p' r rs
    assume a1: "scanned h raw p p'" and a2: "extractInscriptionData2 h raw p' = Some r"
      and a3: "scanLoop h (extractInscriptionData2 h) raw s acc2 = Some rs"
    show "r \<in> set rs"
      by (rule scanLoop_complete [OF scanned.later [OF assms(1) a1] a2 a3])
  qed
  from assms(1) n have l:
    "scanLoop h (extractInscriptionData1 h) raw s acc1
       = scanLoop h (extractInscriptionData1 h) raw p acc1"
    "scanLoop h (extractInscriptionData2 h) raw s acc2
       = scanLoop h (extractInscriptionData2 h) raw p acc2"
    by (simp_all add: scanLoop_step)
  show ?thesis
    by (intro conjI readEnvelope2_throws_origin [OF e] n l c1 c2)
qed


text \<open>
  A truncated envelope followed by \<open>plainEnvelope\<close>: the read at offset 8 announces 255
  bytes and fails, and the loop still returns the record of the second envelope. In a
  buffer that ends after the tag of a field, the read of the value starts at the end of
  the buffer and fails in the same way.
\<close>

theorem truncated_envelope_is_skipped_witness:
  "getNextInscriptionMark ordHelper (truncatedEnvelope @ plainEnvelope) 0 = Some 6 \<and>
   readPushdata (truncatedEnvelope @ plainEnvelope) 8 = Inl TruncatedInput \<and>
   readEnvelope2 ordHelper (truncatedEnvelope @ plainEnvelope) 6 = Inl TruncatedInput \<and>
   (\<exists>q. readPushdata (truncatedEnvelope @ plainEnvelope) q = Inl TruncatedInput) \<and>
   extractInscriptionData1 ordHelper (truncatedEnvelope @ plainEnvelope) 6 = None \<and>
   extractInscriptionData2 ordHelper (truncatedEnvelope @ plainEnvelope) 6 = None \<and>
   scanLoop ordHelper (extractInscriptionData1 ordHelper) (truncatedEnvelope @ plainEnvelope) 0 []
     = scanLoop ordHelper (extractInscriptionData1 ordHelper) (truncatedEnvelope @ plainEnvelope) 6 [] \<and>
   scanLoop ordHelper (extractInscriptionData2 ordHelper) (truncatedEnvelope @ plainEnvelope) 0 []
     = scanLoop ordHelper (extractInscriptionData2 ordHelper) (truncatedEnvelope @ plainEnvelope) 6 [] \<and>
   scanned ordHelper (truncatedEnvelope @ plainEnvelope) 6 16 \<and>
   extractInscriptionData1 ordHelper (truncatedEnvelope @ plainEnvelope) 16 = Some plainInscription \<and>
   extractInscriptionData2 ordHelper (truncatedEnvelope @ plainEnvelope) 16 = Some plainInscription2 \<and>
   scanLoop ordHelper (extractInscriptionData1 ordHelper) (truncatedEnvelope @ plainEnvelope) 0 []
     = Some [plainInscription] \<and>
   scanLoop ordHelper (extractInscriptionData2 ordHelper) (truncatedEnvelope @ plainEnvelope) 0 []
     = Some [plainInscription2] \<and>
   plainInscription \<in> set [plainInscription] \<and>
   plainInscription2 \<in> set [plainInscription2] \<and>
   readPushdata [0x00, 0x63, 0x03, 0x6f, 0x72, 0x64, 0x01, 0x01] 8 = Inl TruncatedInput \<and>
   readEnvelope2 ordHelper [0x00, 0x63, 0x03, 0x6f, 0x72, 0x64, 0x01, 0x01] 6 = Inl TruncatedInput \<and>
   scanLoop ordHelper (extractInscriptionData2 ordHelper)
     [0x00, 0x63, 0x03, 0x6f, 0x72, 0x64, 0x01, 0x01] 0 [] = Some []"
proof -
  let ?raw = "truncatedEnvelope @ plainEnvelope"
  have g: "getNextInscriptionMark ordHelper ?raw 0 = Some 6"
    by code_simp
  have g6: "getNextInscriptionMark ordHelper ?raw 6 = Some 16"
    by code_simp
  have rp: "readPushdata ?raw 8 = Inl TruncatedInput"
    by code_simp
  have e: "readEnvelope2 ordHelper ?raw 6 = Inl TruncatedInput"
    by code_simp
  have x1: "extractInscriptionData1 ordHelper ?raw 16 = Some plainInscription"
    by code_simp
  have x2: "extractInscriptionData2 ordHelper ?raw 16 = Some plainInscription2"
    by code_simp
  have s1: "scanLoop ordHelper (extractInscriptionData1 ordHelper) ?raw 0 [] = Some [plainInscription]"
    by code_simp
  have s2: "scanLoop ordHelper (extractInscriptionData2 ordHelper) ?raw 0 [] = Some [plainInscription2]"
    by code_simp
  have rp': "readPushdata [0x00, 0x63, 0x03, 0x6f, 0x72, 0x64, 0x01, 0x01] 8 = Inl TruncatedInput"
    by code_simp
  have e': "readEnvelope2 ordHelper [0x00, 0x63, 0x03, 0x6f, 0x72, 0x64, 0x01, 0x01] 6
      = Inl TruncatedInput"
    by code_simp
  have s': "scanLoop ordHelper (extractInscriptionData2 ordHelper)
      [0x00, 0x63, 0x03, 0x6f, 0x72, 0x64, 0x01, 0x01] 0 [] = Some []"
    by code_simp
  have sc: "scanned ordHelper ?raw 6 16"
    by (rule scanned.found [OF g6])
  from e have d: "readEnvelope1 ordHelper ?raw 6 = Inl TruncatedInput \<or>
      readEnvelope2 ordHelper ?raw 6 = Inl TruncatedInput"
    by simp
  note r = truncated_envelope_is_skipped [OF g d, of "[]" "[]"]
  note c1 = r [THEN conjunct2, THEN conjunct2, THEN conjunct2, THEN conjunct2, THEN conjunct2,
      THEN conjunct1, THEN spec, THEN spec, THEN spec, THEN mp, OF conjI [OF sc conjI [OF x1 s1]]]
  note c2 = r [THEN conjunct2, THEN conjunct2, THEN conjunct2, THEN conjunct2, THEN conjunct2,
      THEN conjunct2, THEN spec, THEN spec, THEN spec, THEN mp, OF conjI [OF sc conjI [OF x2 s2]]]
  show ?thesis
    by (intro conjI g rp e sc x1 x2 s1 s2 c1 c2 rp' e' s'
        r [THEN conjunct1]
        r [THEN conjunct2, THEN conjunct1]
        r [THEN conjunct2, THEN conjunct2, THEN conjunct1]
        r [THEN conjunct2, THEN conjunct2, THEN conjunct2, THEN conjunct1]
        r [THEN conjunct2, THEN conjunct2, THEN conjunct2, THEN conjunct2, THEN conjunct1])
qed

section \<open>The tag of the content type field\<close>

lemma find_exact_tag:
  "List.find (\<lambda>x. length (tag x) = 1 \<and> unat (tag x ! 0) = content_type) flds =
   List.find (\<lambda>x. length (tag x) = 1 \<and> tag x ! 0 = 1) flds"
proof -
  have "\<And>b :: byte. (unat b = content_type) = (b = 1)"
  proof -
    fix b :: byte
    have "(unat b = unat (1 :: byte)) = (b = 1)"
      by (rule word_unat_eq_iff [symmetric])
    then show "(unat b = content_type) = (b = 1)"
      by (simp add: content_type_def)
  qed
  then show ?thesis by simp
qed

text \<open>
  C10. In \<open>inscription-parser.service.ts\<close> the content type of a returned record is the
  value of the first field whose tag is exactly one byte long with that byte equal to 1,
  and the record holds every field that was read, in order. When no field of the envelope
  has such a tag (also when a tag spells the value 1 in more than one byte) the envelope
  yields no record.
\<close>

theorem content_type_needs_single_byte_tag:
  "(extractInscriptionData1 h raw p = Some r \<longrightarrow>
      (\<exists>body f. readEnvelope1 h raw p = Inr (fields' r, body) \<and>
         List.find (\<lambda>x. length (tag x) = 1 \<and> tag x ! 0 = 1) (fields' r) = Some f \<and>
         contentType r = uint8ArrayToSingleByteChars (fvalue f))) \<and>
   (readEnvelope1 h raw p = Inr (flds, body') \<and>
    (\<forall>f \<in> set flds. \<not> (length (tag f) = 1 \<and> tag f ! 0 = 1)) \<longrightarrow>
      extractInscriptionData1 h raw p = None)"
proof (intro conjI impI)
  assume "extractInscriptionData1 h raw p = Some r"
  then show "\<exists>body f. readEnvelope1 h raw p = Inr (fields' r, body) \<and>
         List.find (\<lambda>x. length (tag x) = 1 \<and> tag x ! 0 = 1) (fields' r) = Some f \<and>
         contentType r = uint8ArrayToSingleByteChars (fvalue f)"
    unfolding extractInscriptionData1_def tryExtract1_def find_exact_tag
    by (auto split: sum.splits option.splits)
next
  assume a: "readEnvelope1 h raw p = Inr (flds, body') \<and>
    (\<forall>f \<in> set flds. \<not> (length (tag f) = 1 \<and> tag f ! 0 = 1))"
  then have "List.find (\<lambda>x. length (tag x) = 1 \<and> tag x ! 0 = 1) flds = None"
    by (simp add: find_None_iff)
  with a show "extractInscriptionData1 h raw p = None"
    unfolding extractInscriptionData1_def tryExtract1_def find_exact_tag
    by simp
qed

text \<open>
  \<open>mixedTagEnvelope\<close> has a field with the two-byte tag 01 00 before its content type:
  the record keeps both fields and takes the content type from the second.
  \<open>wideTagEnvelope\<close> has the two-byte tag only and yields no record.
\<close>

theorem content_type_needs_single_byte_tag_witness:
  "extractInscriptionData1 ordHelper mixedTagEnvelope 6 =
     Some \<lparr>contentType = ''text/plain'',
           fields' = [\<lparr>tag = [0x01, 0x00], fvalue = [0x6e, 0x6f]\<rparr>,
                      \<lparr>tag = [0x01],
                       fvalue = [0x74, 0x65, 0x78, 0x74, 0x2f, 0x70, 0x6c, 0x61, 0x69, 0x6e]\<rparr>],
           combinedData = [0x68, 0x69]\<rparr> \<and>
   (\<exists>body f. readEnvelope1 ordHelper mixedTagEnvelope 6 =
        Inr ([\<lparr>tag = [0x01, 0x00], fvalue = [0x6e, 0x6f]\<rparr>,
              \<lparr>tag = [0x01],
               fvalue = [0x74, 0x65, 0x78, 0x74, 0x2f, 0x70, 0x6c, 0x61, 0x69, 0x6e]\<rparr>], body) \<and>
      List.find (\<lambda>x. length (tag x) = 1 \<and> tag x ! 0 = 1)
        [\<lparr>tag = [0x01, 0x00], fvalue = [0x6e, 0x6f]\<rparr>,
         \<lparr>tag = [0x01],
          fvalue = [0x74, 0x65, 0x78, 0x74, 0x2f, 0x70, 0x6c, 0x61, 0x69, 0x6e]\<rparr>] = Some f \<and>
      ''text/plain'' = uint8ArrayToSingleByteChars (fvalue f)) \<and>
   readEnvelope1 ordHelper wideTagEnvelope 6 =
     Inr ([\<lparr>tag = [0x01, 0x00],
            fvalue = [0x74, 0x65, 0x78, 0x74, 0x2f, 0x70, 0x6c, 0x61, 0x69, 0x6e]\<rparr>],
          [0x68, 0x69]) \<and>
   extractInscriptionData1 ordHelper wideTagEnvelope 6 = None"
proof -
  let ?wide = "[\<lparr>tag = [0x01, 0x00],
            fvalue = [0x74, 0x65, 0x78, 0x74, 0x2f, 0x70, 0x6c, 0x61, 0x69, 0x6e]\<rparr>]"
  let ?r = "\<lparr>contentType = ''text/plain'',
           fields' = [\<lparr>tag = [0x01, 0x00], fvalue = [0x6e, 0x6f]\<rparr>,
                      \<lparr>tag = [0x01],
                       fvalue = [0x74, 0x65, 0x78, 0x74, 0x2f, 0x70, 0x6c, 0x61, 0x69, 0x6e]\<rparr>],
           combinedData = [0x68, 0x69]\<rparr>"
  have m: "extractInscriptionData1 ordHelper mixedTagEnvelope 6 = Some ?r"
    by code_simp
  have w: "readEnvelope1 ordHelper wideTagEnvelope 6 = Inr (?wide, [0x68, 0x69])"
    by code_simp
  have n: "\<forall>f \<in> set ?wide. \<not> (length (tag f) = 1 \<and> tag f ! 0 = 1)"
    by simp
  from content_type_needs_single_byte_tag
    [where h = ordHelper and raw = mixedTagEnvelope and p = 6 and r = ?r] m
  have a: "\<exists>body f. readEnvelope1 ordHelper mixedTagEnvelope 6 = Inr (fields' ?r, body) \<and>
         List.find (\<lambda>x. length (tag x) = 1 \<and> tag x ! 0 = 1) (fields' ?r) = Some f \<and>
         contentType ?r = uint8ArrayToSingleByteChars (fvalue f)"
    by blast
  from content_type_needs_single_byte_tag
    [where h = ordHelper and raw = wideTagEnvelope and p = 6 and flds = ?wide and body' = "[0x68, 0x69]"] w n
  have b: "extractInscriptionData1 ordHelper wideTagEnvelope 6 = None"
    by blast
  from m a w b show ?thesis by simp
qed

section \<open>The body payload\<close>

lemma bodyChunks_end:
  "bodyChunks h raw p chunks q \<Longrightarrow> length raw \<le> q \<or> raw ! q = OP_ENDIF h"
  by (induction rule: bodyChunks.induct) auto

lemma readEnvelope2_chunks:
  assumes "readEnvelope2 h raw p = Inr (flds, body)"
  shows "\<exists>q q' chunks. fieldsLoop2 raw p [] = Inr (q, flds) \<and>
           bodyChunks h raw (if q < length raw \<and> raw ! q = OP_0 then q + 1 else q) chunks q' \<and>
           body = concat chunks"
proof -
  from assms obtain q where f: "fieldsLoop2 raw p [] = Inr (q, flds)"
    by (auto simp: readEnvelope2_def simp del: fieldsLoop2.simps bodyLoop2.simps split: sum.splits)
  let ?b = "if q < length raw \<and> raw ! q = OP_0 then q + 1 else q"
  from assms f obtain q' data where b: "bodyLoop2 h raw ?b [] = Inr (q', data)"
    by (auto simp: readEnvelope2_def simp del: fieldsLoop2.simps bodyLoop2.simps split: sum.splits)
  from assms f b have body: "body = concat data"
    by (simp add: readEnvelope2_def combineData_concat del: fieldsLoop2.simps bodyLoop2.simps)
  from bodyLoop2_chunks [OF b] have "bodyChunks h raw ?b data q'" by simp
  with f body show ?thesis by blast
qed

lemma readEnvelope1_chunks:
  assumes "readEnvelope1 h raw p = Inr (flds, body)"
  shows "\<exists>current q' chunks.
           fieldsLoop1 raw \<lparr>slice = [], pointer = p\<rparr> [] = Inr (current, flds) \<and>
           bodyChunks h raw
             (if pointer current < length raw \<and> raw ! pointer current = OP_0
              then pointer current + 1 else pointer current) chunks q' \<and>
           body = concat chunks"
proof -
  from assms obtain current where f: "fieldsLoop1 raw \<lparr>slice = [], pointer = p\<rparr> [] = Inr (current, flds)"
    by (auto simp: readEnvelope1_def simp del: fieldsLoop1.simps bodyLoop1.simps split: sum.splits)
  let ?c = "if pointer current < length raw \<and> raw ! pointer current = OP_0
            then \<lparr>slice = [], pointer = pointer current + 1\<rparr> else current"
  let ?b = "if pointer current < length raw \<and> raw ! pointer current = OP_0
            then pointer current + 1 else pointer current"
  have pc: "pointer ?c = ?b" by simp
  from assms f obtain c' data where b: "bodyLoop1 h raw ?c [] = Inr (c', data)"
    by (auto simp: readEnvelope1_def simp del: fieldsLoop1.simps bodyLoop1.simps split: sum.splits)
  from assms f b have body: "body = concat data"
    by (simp add: readEnvelope1_def combineData_concat del: fieldsLoop1.simps bodyLoop1.simps)
  from bodyLoop1_eq_bodyLoop2 [of h raw ?c "[]"] b
  have "bodyLoop2 h raw ?b [] = Inr (pointer c', data)"
    unfolding pc by simp
  from bodyLoop2_chunks [OF this] have "bodyChunks h raw ?b data (pointer c')" by simp
  with f body show ?thesis by blast
qed

text \<open>
  C7. The body of a returned record is the concatenation, in read order, of the chunks
  that are read as pushdatas from the end of the field section (one byte further when
  the separator OP_0 stands there) until the byte at the cursor is OP_ENDIF or the buffer
  is exhausted; its length is the sum of the lengths of the chunks. In the second file
  this is the payload before decompression: it is the body of the record unless the
  content encoding is "br", and then the body is what the decompressor returns for it.
\<close>

theorem body_is_concatenation_of_chunks:
  "(extractInscriptionData1 h raw p = Some r1 \<longrightarrow>
      (\<exists>current q' chunks.
         fieldsLoop1 raw \<lparr>slice = [], pointer = p\<rparr> [] = Inr (current, fields' r1) \<and>
         bodyChunks h raw
           (if pointer current < length raw \<and> raw ! pointer current = OP_0
            then pointer current + 1 else pointer current) chunks q' \<and>
         (length raw \<le> q' \<or> raw ! q' = OP_ENDIF h) \<and>
         combinedData r1 = concat chunks \<and>
         length (combinedData r1) = sum_list (map length chunks))) \<and>
   (extractInscriptionData2 h raw p = Some r2 \<longrightarrow>
      (\<exists>q q' chunks.
         fieldsLoop2 raw p [] = Inr (q, fields' r2) \<and>
         bodyChunks h raw (if q < length raw \<and> raw ! q = OP_0 then q + 1 else q) chunks q' \<and>
         (length raw \<le> q' \<or> raw ! q' = OP_ENDIF h) \<and>
         (if contentEncoding r2 = Some ''br''
          then brotliDecodeUint8Array h (concat chunks) = Inr (combinedData r2)
          else combinedData r2 = concat chunks \<and>
               length (combinedData r2) = sum_list (map length chunks))))"
proof (intro conjI impI)
  assume "extractInscriptionData1 h raw p = Some r1"
  from extractInscriptionData1_Some [OF this]
  have "readEnvelope1 h raw p = Inr (fields' r1, combinedData r1)" by blast
  from readEnvelope1_chunks [OF this] obtain current q' chunks
    where f: "fieldsLoop1 raw \<lparr>slice = [], pointer = p\<rparr> [] = Inr (current, fields' r1)"
      and c: "bodyChunks h raw
           (if pointer current < length raw \<and> raw ! pointer current = OP_0
            then pointer current + 1 else pointer current) chunks q'"
      and b: "combinedData r1 = concat chunks"
    by blast
  from b have "length (combinedData r1) = sum_list (map length chunks)"
    by (simp add: length_concat)
  with f c b bodyChunks_end [OF c]
  show "\<exists>current q' chunks.
         fieldsLoop1 raw \<lparr>slice = [], pointer = p\<rparr> [] = Inr (current, fields' r1) \<and>
         bodyChunks h raw
           (if pointer current < length raw \<and> raw ! pointer current = OP_0
            then pointer current + 1 else pointer current) chunks q' \<and>
         (length raw \<le> q' \<or> raw ! q' = OP_ENDIF h) \<and>
         combinedData r1 = concat chunks \<and>
         length (combinedData r1) = sum_list (map length chunks)"
    by blast
next
  assume "extractInscriptionData2 h raw p = Some r2"
  from extractInscriptionData2_Some [OF this] obtain body
    where e: "readEnvelope2 h raw p = Inr (fields' r2, body)"
      and d: "if contentEncoding r2 = Some ''br''
              then brotliDecodeUint8Array h body = Inr (combinedData r2)
              else combinedData r2 = body"
    by blast
  from readEnvelope2_chunks [OF e] obtain q q' chunks
    where f: "fieldsLoop2 raw p [] = Inr (q, fields' r2)"
      and c: "bodyChunks h raw (if q < length raw \<and> raw ! q = OP_0 then q + 1 else q) chunks q'"
      and b: "body = concat chunks"
    by blast
  from d b have "if contentEncoding r2 = Some ''br''
          then brotliDecodeUint8Array h (concat chunks) = Inr (combinedData r2)
          else combinedData r2 = concat chunks \<and>
               length (combinedData r2) = sum_list (map length chunks)"
    by (simp add: length_concat split: if_splits)
  with f c bodyChunks_end [OF c]
  show "\<exists>q q' chunks.
         fieldsLoop2 raw p [] = Inr (q, fields' r2) \<and>
         bodyChunks h raw (if q < length raw \<and> raw ! q = OP_0 then q + 1 else q) chunks q' \<and>
         (length raw \<le> q' \<or> raw ! q' = OP_ENDIF h) \<and>
         (if contentEncoding r2 = Some ''br''
          then brotliDecodeUint8Array h (concat chunks) = Inr (combinedData r2)
          else combinedData r2 = concat chunks \<and>
               length (combinedData r2) = sum_list (map length chunks))"
    by blast
qed

text \<open>
  \<open>chunkedEnvelope\<close> carries the body "hi" in two pushes of one byte;
  \<open>emptyBodyEnvelope\<close> has no push between the separator and OP_ENDIF and yields the
  empty body.
\<close>

theorem body_is_concatenation_of_chunks_witness:
  "extractInscriptionData1 ordHelper chunkedEnvelope 6 = Some plainInscription \<and>
   (\<exists>current q' chunks.
         fieldsLoop1 chunkedEnvelope \<lparr>slice = [], pointer = 6\<rparr> [] = Inr (current, fields' plainInscription) \<and>
         bodyChunks ordHelper chunkedEnvelope
           (if pointer current < length chunkedEnvelope \<and> chunkedEnvelope ! pointer current = OP_0
            then pointer current + 1 else pointer current) chunks q' \<and>
         (length chunkedEnvelope \<le> q' \<or> chunkedEnvelope ! q' = OP_ENDIF ordHelper) \<and>
         combinedData plainInscription = concat chunks \<and>
         length (combinedData plainInscription) = sum_list (map length chunks)) \<and>
   extractInscriptionData2 ordHelper chunkedEnvelope 6 = Some plainInscription2 \<and>
   (\<exists>q q' chunks.
         fieldsLoop2 chunkedEnvelope 6 [] = Inr (q, fields' plainInscription2) \<and>
         bodyChunks ordHelper chunkedEnvelope
           (if q < length chunkedEnvelope \<and> chunkedEnvelope ! q = OP_0 then q + 1 else q) chunks q' \<and>
         (length chunkedEnvelope \<le> q' \<or> chunkedEnvelope ! q' = OP_ENDIF ordHelper) \<and>
         (if contentEncoding plainInscription2 = Some ''br''
          then brotliDecodeUint8Array ordHelper (concat chunks) = Inr (combinedData plainInscription2)
          else combinedData plainInscription2 = concat chunks \<and>
               length (combinedData plainInscription2) = sum_list (map length chunks))) \<and>
   contentEncoding plainInscription2 = None \<and>
   bodyLoop2 ordHelper chunkedEnvelope 20 [] = Inr (24, [[0x68], [0x69]]) \<and>
   combinedData plainInscription2 = concat [[0x68], [0x69]] \<and>
   bodyLoop2 ordHelper emptyBodyEnvelope 20 [] = Inr (20, []) \<and>
   map_option combinedData (extractInscriptionData2 ordHelper emptyBodyEnvelope 6) = Some []"
proof -
  have e1: "extractInscriptionData1 ordHelper chunkedEnvelope 6 = Some plainInscription"
    by code_simp
  have e2: "extractInscriptionData2 ordHelper chunkedEnvelope 6 = Some plainInscription2"
    by code_simp
  have n: "contentEncoding plainInscription2 = None"
    by (simp add: plainInscription2_def)
  have b: "bodyLoop2 ordHelper chunkedEnvelope 20 [] = Inr (24, [[0x68], [0x69]])"
    by code_simp
  have c: "combinedData plainInscription2 = concat [[0x68], [0x69]]"
    by (simp add: plainInscription2_def)
  have z: "bodyLoop2 ordHelper emptyBodyEnvelope 20 [] = Inr (20, [])"
    by code_simp
  have y: "map_option combinedData (extractInscriptionData2 ordHelper emptyBodyEnvelope 6) = Some []"
    by code_simp
  note r = body_is_concatenation_of_chunks
    [where h = ordHelper and raw = chunkedEnvelope and p = 6 and ?r1.0 = plainInscription
       and ?r2.0 = plainInscription2]
  note r1 = r [THEN conjunct1, THEN mp, OF e1]
  note r2 = r [THEN conjunct2, THEN mp, OF e2]
  show ?thesis
    by (intro conjI e1 r1 e2 r2 n b c z y)
qed

section \<open>Content encoding\<close>

text \<open>
  C6, as amended. In the parser with content encoding support (the second file), a
  returned record holds the payload after decompression: when the value of the content
  encoding field reads "br", the bytes that the accessors see are what the decompressor
  returned for the concatenated body, and for any other value, or without the field,
  they are the body itself. \<open>getContentString\<close>, \<open>getData\<close> and \<open>getDataUri\<close> are
  computed from those bytes. The parser of \<open>inscription-parser.service.ts\<close> has no content
  encoding step: the bytes its accessors see are always the concatenated body as read.
\<close>

theorem body_is_decompressed:
  "(extractInscriptionData2 h raw p = Some r \<longrightarrow>
      (\<exists>body.
           readEnvelope2 h raw p = Inr (fields' r, body) \<and>
           contentEncoding r =
             map_option uint8ArrayToSingleByteChars (getKnownFieldValue (fields' r) content_encoding) \<and>
           (if contentEncoding r = Some ''br''
            then brotliDecodeUint8Array h body = Inr (combinedData r)
            else combinedData r = body) \<and>
           getContentString h r = utf8BytesToUtf16String h (combinedData r) \<and>
           getData r = encodeToBase64 (uint8ArrayToSingleByteChars (combinedData r)) \<and>
           getDataUri r =
             ''data:'' @ contentType r @ '';base64,'' @
             encodeToBase64 (uint8ArrayToSingleByteChars (combinedData r)) \<and>
           getContentEncoding r = contentEncoding r)) \<and>
   (extractInscriptionData1 h raw p = Some r1 \<longrightarrow>
      readEnvelope1 h raw p = Inr (fields' r1, combinedData r1) \<and>
      getContentString1 h r1 = uint8ArrayToUtf8String h (combinedData r1) \<and>
      getData r1 = encodeToBase64 (uint8ArrayToSingleByteChars (combinedData r1)) \<and>
      getDataUri r1 =
        ''data:'' @ contentType r1 @ '';base64,'' @
        encodeToBase64 (uint8ArrayToSingleByteChars (combinedData r1)))"
proof (intro conjI impI)
  assume a: "extractInscriptionData2 h raw p = Some r"
  from extractInscriptionData2_Some [OF a] obtain body
    where "readEnvelope2 h raw p = Inr (fields' r, body)"
      and "contentEncoding r =
             map_option uint8ArrayToSingleByteChars (getKnownFieldValue (fields' r) content_encoding)"
      and "if contentEncoding r = Some ''br''
            then brotliDecodeUint8Array h body = Inr (combinedData r)
            else combinedData r = body"
    by blast
  then show "\<exists>body.
           readEnvelope2 h raw p = Inr (fields' r, body) \<and>
           contentEncoding r =
             map_option uint8ArrayToSingleByteChars (getKnownFieldValue (fields' r) content_encoding) \<and>
           (if contentEncoding r = Some ''br''
            then brotliDecodeUint8Array h body = Inr (combinedData r)
            else combinedData r = body) \<and>
           getContentString h r = utf8BytesToUtf16String h (combinedData r) \<and>
           getData r = encodeToBase64 (uint8ArrayToSingleByteChars (combinedData r)) \<and>
           getDataUri r =
             ''data:'' @ contentType r @ '';base64,'' @
             encodeToBase64 (uint8ArrayToSingleByteChars (combinedData r)) \<and>
           getContentEncoding r = contentEncoding r"
    by (simp add: getContentString_def getData_def getDataUri_def getContentEncoding_def)
next
  assume a: "extractInscriptionData1 h raw p = Some r1"
  from extractInscriptionData1_Some [OF a]
  show "readEnvelope1 h raw p = Inr (fields' r1, combinedData r1)"
    by blast
next
  show "getContentString1 h r1 = uint8ArrayToUtf8String h (combinedData r1)"
    by (simp add: getContentString1_def)
next
  show "getData r1 = encodeToBase64 (uint8ArrayToSingleByteChars (combinedData r1))"
    by (simp add: getData_def)
next
  show "getDataUri r1 =
        ''data:'' @ contentType r1 @ '';base64,'' @
        encodeToBase64 (uint8ArrayToSingleByteChars (combinedData r1))"
    by (simp add: getDataUri_def)
qed

text \<open>
  \<open>compressedEnvelope\<close> with the run-length decoder of \<open>ordHelper\<close> in the place of
  the decompressor: in the second file the body 02 61 03 62 becomes "aabbb", and the
  accessors return "aabbb" and its base64 encoding. \<open>plainEnvelope\<close> in the first
  file: the record holds the body as read.
\<close>

theorem body_is_decompressed_witness:
  "extractInscriptionData2 ordHelper compressedEnvelope 6 =
     Some \<lparr>contentType = ''text/plain'',
           fields' = [\<lparr>tag = [0x01],
                       fvalue = [0x74, 0x65, 0x78, 0x74, 0x2f, 0x70, 0x6c, 0x61, 0x69, 0x6e]\<rparr>,
                      \<lparr>tag = [0x09], fvalue = [0x62, 0x72]\<rparr>],
           combinedData = [0x61, 0x61, 0x62, 0x62, 0x62],
           contentEncoding = Some ''br''\<rparr> \<and>
   readEnvelope2 ordHelper compressedEnvelope 6 =
     Inr ([\<lparr>tag = [0x01],
            fvalue = [0x74, 0x65, 0x78, 0x74, 0x2f, 0x70, 0x6c, 0x61, 0x69, 0x6e]\<rparr>,
           \<lparr>tag = [0x09], fvalue = [0x62, 0x72]\<rparr>], [0x02, 0x61, 0x03, 0x62]) \<and>
   brotliDecodeUint8Array ordHelper [0x02, 0x61, 0x03, 0x62] = Inr [0x61, 0x61, 0x62, 0x62, 0x62] \<and>
   map_option getData (extractInscriptionData2 ordHelper compressedEnvelope 6) = Some ''YWFiYmI='' \<and>
   map_option getDataUri (extractInscriptionData2 ordHelper compressedEnvelope 6)
     = Some ''data:text/plain;base64,YWFiYmI='' \<and>
   map_option (getContentString ordHelper) (extractInscriptionData2 ordHelper compressedEnvelope 6)
     = Some [0x61, 0x61, 0x62, 0x62, 0x62] \<and>
   (\<exists>body.
      readEnvelope2 ordHelper compressedEnvelope 6 = Inr
        ([\<lparr>tag = [0x01],
            fvalue = [0x74, 0x65, 0x78, 0x74, 0x2f, 0x70, 0x6c, 0x61, 0x69, 0x6e]\<rparr>,
           \<lparr>tag = [0x09], fvalue = [0x62, 0x72]\<rparr>], body) \<and>
      brotliDecodeUint8Array ordHelper body = Inr [0x61, 0x61, 0x62, 0x62, 0x62]) \<and>
   extractInscriptionData1 ordHelper plainEnvelope 6 = Some plainInscription \<and>
   readEnvelope1 ordHelper plainEnvelope 6
     = Inr (fields' plainInscription, combinedData plainInscription) \<and>
   combinedData plainInscription = [0x68, 0x69] \<and>
   getData plainInscription = ''aGk=''"
proof -
  let ?r = "\<lparr>contentType = ''text/plain'',
           fields' = [\<lparr>tag = [0x01],
                       fvalue = [0x74, 0x65, 0x78, 0x74, 0x2f, 0x70, 0x6c, 0x61, 0x69, 0x6e]\<rparr>,
                      \<lparr>tag = [0x09], fvalue = [0x62, 0x72]\<rparr>],
           combinedData = [0x61, 0x61, 0x62, 0x62, 0x62],
           contentEncoding = Some ''br''\<rparr>"
  have e: "extractInscriptionData2 ordHelper compressedEnvelope 6 = Some ?r"
    by code_simp
  have v: "readEnvelope2 ordHelper compressedEnvelope 6 =
     Inr (fields' ?r, [0x02, 0x61, 0x03, 0x62])"
    by code_simp
  have d: "brotliDecodeUint8Array ordHelper [0x02, 0x61, 0x03, 0x62] = Inr [0x61, 0x61, 0x62, 0x62, 0x62]"
    by code_simp
  have g: "map_option getData (extractInscriptionData2 ordHelper compressedEnvelope 6) = Some ''YWFiYmI=''"
    by code_simp
  have u: "map_option getDataUri (extractInscriptionData2 ordHelper compressedEnvelope 6)
     = Some ''data:text/plain;base64,YWFiYmI=''"
    by code_simp
  have c: "map_option (getContentString ordHelper) (extractInscriptionData2 ordHelper compressedEnvelope 6)
     = Some [0x61, 0x61, 0x62, 0x62, 0x62]"
    by code_simp
  have e1: "extractInscriptionData1 ordHelper plainEnvelope 6 = Some plainInscription"
    by code_simp
  have b1: "combinedData plainInscription = [0x68, 0x69]"
    by (simp add: plainInscription_def)
  have g1: "getData plainInscription = ''aGk=''"
    by code_simp
  note r1 = body_is_decompressed [where h = ordHelper and raw = plainEnvelope and p = 6
      and ?r1.0 = plainInscription, THEN conjunct2, THEN mp, OF e1, THEN conjunct1]
  from body_is_decompressed [THEN conjunct1, THEN mp, OF e] obtain body
    where "readEnvelope2 ordHelper compressedEnvelope 6 = Inr (fields' ?r, body)"
      and "brotliDecodeUint8Array ordHelper body = Inr (combinedData ?r)"
    by auto
  then have x: "\<exists>body.
      readEnvelope2 ordHelper compressedEnvelope 6 = Inr
        ([\<lparr>tag = [0x01],
            fvalue = [0x74, 0x65, 0x78, 0x74, 0x2f, 0x70, 0x6c, 0x61, 0x69, 0x6e]\<rparr>,
           \<lparr>tag = [0x09], fvalue = [0x62, 0x72]\<rparr>], body) \<and>
      brotliDecodeUint8Array ordHelper body = Inr [0x61, 0x61, 0x62, 0x62, 0x62]"
    by auto
  from v have v': "readEnvelope2 ordHelper compressedEnvelope 6 =
     Inr ([\<lparr>tag = [0x01],
            fvalue = [0x74, 0x65, 0x78, 0x74, 0x2f, 0x70, 0x6c, 0x61, 0x69, 0x6e]\<rparr>,
           \<lparr>tag = [0x09], fvalue = [0x62, 0x72]\<rparr>], [0x02, 0x61, 0x03, 0x62])"
    by simp
  show ?thesis
    by (intro conjI e v' d g u c x e1 r1 b1 g1)
qed

text \<open>
  C6 as stated fails for the parser of \<open>inscription-parser.service.ts\<close>: on
  \<open>compressedEnvelope\<close>, whose content encoding field reads "br", its record holds the
  compressed body 02 61 03 62 and \<open>getData\<close> encodes those bytes, where the parser of
  the second file returns the decompressed "aabbb".
\<close>

theorem first_parser_keeps_compressed_body:
  "extractInscriptionData1 ordHelper compressedEnvelope 6 =
     Some \<lparr>contentType = ''text/plain'',
           fields' = [\<lparr>tag = [0x01],
                       fvalue = [0x74, 0x65, 0x78, 0x74, 0x2f, 0x70, 0x6c, 0x61, 0x69, 0x6e]\<rparr>,
                      \<lparr>tag = [0x09], fvalue = [0x62, 0x72]\<rparr>],
           combinedData = [0x02, 0x61, 0x03, 0x62]\<rparr> \<and>
   uint8ArrayToSingleByteChars [0x62, 0x72] = ''br'' \<and>
   map_option getData (extractInscriptionData1 ordHelper compressedEnvelope 6) = Some ''AmEDYg=='' \<and>
   brotliDecodeUint8Array ordHelper [0x02, 0x61, 0x03, 0x62] = Inr [0x61, 0x61, 0x62, 0x62, 0x62] \<and>
   map_option getData (extractInscriptionData2 ordHelper compressedEnvelope 6) = Some ''YWFiYmI=''"
  by code_simp

section \<open>Base64 and the data URI\<close>

text \<open>
  C8. \<open>getData\<close> is the base64 encoding of the body bytes of the record, and
  \<open>getDataUri\<close> is "data:", the content type, ";base64," and that same encoding; for a
  record that either parser returns, the content type in the URI is the value of the
  content type field read as single-byte characters.
\<close>

theorem data_uri_format:
  "getData r = encodeToBase64 (uint8ArrayToSingleByteChars (combinedData r)) \<and>
   getDataUri r = ''data:'' @ contentType r @ '';base64,'' @ getData r \<and>
   (extractInscriptionData1 h raw p = Some r1 \<longrightarrow>
      (\<exists>v. getKnownFieldValue (fields' r1) content_type = Some v \<and>
         getDataUri r1 = ''data:'' @ uint8ArrayToSingleByteChars v @ '';base64,'' @
           encodeToBase64 (uint8ArrayToSingleByteChars (combinedData r1)))) \<and>
   (extractInscriptionData2 h raw p = Some r2 \<longrightarrow>
      (\<exists>v. getKnownFieldValue (fields' r2) content_type = Some v \<and>
         getDataUri r2 = ''data:'' @ uint8ArrayToSingleByteChars v @ '';base64,'' @
           encodeToBase64 (uint8ArrayToSingleByteChars (combinedData r2))))"
proof (intro conjI impI)
  show "getData r = encodeToBase64 (uint8ArrayToSingleByteChars (combinedData r))"
    by (simp add: getData_def)
  show "getDataUri r = ''data:'' @ contentType r @ '';base64,'' @ getData r"
    by (simp add: getData_def getDataUri_def)
next
  assume "extractInscriptionData1 h raw p = Some r1"
  from extractInscriptionData1_Some [OF this]
  show "\<exists>v. getKnownFieldValue (fields' r1) content_type = Some v \<and>
         getDataUri r1 = ''data:'' @ uint8ArrayToSingleByteChars v @ '';base64,'' @
           encodeToBase64 (uint8ArrayToSingleByteChars (combinedData r1))"
    by (auto simp: getDataUri_def)
next
  assume "extractInscriptionData2 h raw p = Some r2"
  from extractInscriptionData2_Some [OF this]
  show "\<exists>v. getKnownFieldValue (fields' r2) content_type = Some v \<and>
         getDataUri r2 = ''data:'' @ uint8ArrayToSingleByteChars v @ '';base64,'' @
           encodeToBase64 (uint8ArrayToSingleByteChars (combinedData r2))"
    by (auto simp: getDataUri_def)
qed

text \<open>
  The example of section 8 of the specification: content type "text/plain", body "hi".
\<close>

theorem data_uri_format_witness:
  "extractInscriptionData1 ordHelper plainEnvelope 6 = Some plainInscription \<and>
   extractInscriptionData2 ordHelper plainEnvelope 6 = Some plainInscription2 \<and>
   getData plainInscription2 = encodeToBase64 ''hi'' \<and>
   getData plainInscription2 = ''aGk='' \<and>
   getDataUri plainInscription2 = ''data:text/plain;base64,aGk='' \<and>
   getDataUri plainInscription = ''data:text/plain;base64,aGk='' \<and>
   getDataUri plainInscription2 = ''data:'' @ contentType plainInscription2 @ '';base64,'' @ getData plainInscription2 \<and>
   (\<exists>v. getKnownFieldValue (fields' plainInscription) content_type = Some v \<and>
         getDataUri plainInscription = ''data:'' @ uint8ArrayToSingleByteChars v @ '';base64,'' @
           encodeToBase64 (uint8ArrayToSingleByteChars (combinedData plainInscription))) \<and>
   (\<exists>v. getKnownFieldValue (fields' plainInscription2) content_type = Some v \<and>
         getDataUri plainInscription2 = ''data:'' @ uint8ArrayToSingleByteChars v @ '';base64,'' @
           encodeToBase64 (uint8ArrayToSingleByteChars (combinedData plainInscription2)))"
proof -
  have e1: "extractInscriptionData1 ordHelper plainEnvelope 6 = Some plainInscription"
    by code_simp
  have e2: "extractInscriptionData2 ordHelper plainEnvelope 6 = Some plainInscription2"
    by code_simp
  have g0: "getData plainInscription2 = encodeToBase64 ''hi''"
    by code_simp
  have g: "getData plainInscription2 = ''aGk=''"
    by code_simp
  have u2: "getDataUri plainInscription2 = ''data:text/plain;base64,aGk=''"
    by code_simp
  have u1: "getDataUri plainInscription = ''data:text/plain;base64,aGk=''"
    by code_simp
  note r = data_uri_format [where r = plainInscription2 and h = ordHelper and raw = plainEnvelope
      and p = 6 and ?r1.0 = plainInscription and ?r2.0 = plainInscription2]
  note a = r [THEN conjunct2, THEN conjunct1]
  note b = r [THEN conjunct2, THEN conjunct2, THEN conjunct1, THEN mp, OF e1]
  note c = r [THEN conjunct2, THEN conjunct2, THEN conjunct2, THEN mp, OF e2]
  show ?thesis
    by (intro conjI e1 e2 g0 g u2 u1 a b c)
qed

section \<open>Metadata\<close>

lemma bodyLoop2_same_OP_ENDIF:
  "OP_ENDIF h' = OP_ENDIF h \<Longrightarrow> bodyLoop2 h' raw p acc = bodyLoop2 h raw p acc"
proof (induction h raw p acc rule: bodyLoop2.induct)
  case (1 h raw p acc)
  show ?case
  proof (cases "p < length raw \<and> raw ! p \<noteq> OP_ENDIF h")
    case False
    with "1.prems" show ?thesis by auto
  next
    case True
    show ?thesis
    proof (cases "readPushdata raw p")
      case (Inl ex)
      with True "1.prems" show ?thesis by simp
    next
      case (Inr a)
      obtain sl p1 where a: "a = (sl, p1)" by (cases a)
      from "1.IH" [OF True Inr a [symmetric] "1.prems"] True Inr a "1.prems"
      show ?thesis by simp
    qed
  qed
qed

lemma extractInscriptionData2_ignores_cborDecode:
  "extractInscriptionData2 (h\<lparr>cborDecode := d\<rparr>) raw p = extractInscriptionData2 h raw p"
proof -
  have b: "bodyLoop2 (h\<lparr>cborDecode := d\<rparr>) raw q [] = bodyLoop2 h raw q []" for q
    by (rule bodyLoop2_same_OP_ENDIF) simp
  have e: "readEnvelope2 (h\<lparr>cborDecode := d\<rparr>) raw p = readEnvelope2 h raw p"
    unfolding readEnvelope2_def b ..
  have u: "brotliDecodeUint8Array (h\<lparr>cborDecode := d\<rparr>) = brotliDecodeUint8Array h"
    by simp
  show ?thesis
    unfolding extractInscriptionData2_def tryExtract2_def e u ..
qed

text \<open>
  C3, as amended. \<open>getMetadata\<close> returns \<open>undefined\<close> when the record has no
  metadata field and the decoded value when the decoder succeeds on the bytes of the
  field; when the decoder throws, the exception leaves \<open>getMetadata\<close>. Extraction never
  calls the decoder, so the record is returned whatever the metadata bytes are.
\<close>

theorem getMetadata_outcomes:
  "(getKnownFieldValue (fields' r) metadata = None \<longrightarrow> getMetadata h r = Inr None) \<and>
   (getKnownFieldValue (fields' r) metadata = Some m \<and> cborDecode h m = Inr v \<longrightarrow>
      getMetadata h r = Inr (Some v)) \<and>
   (getKnownFieldValue (fields' r) metadata = Some m \<and> cborDecode h m = Inl ex \<longrightarrow>
      getMetadata h r = Inl ex) \<and>
   extractInscriptionData2 (h\<lparr>cborDecode := d\<rparr>) raw p = extractInscriptionData2 h raw p"
  by (simp add: getMetadata_def extractInscriptionData2_ignores_cborDecode)

text \<open>
  A record without metadata, a record whose metadata is the integer 7, and the record
  of \<open>badMetadataEnvelope\<close>, whose metadata the decoder rejects: the record is returned
  all the same and \<open>getData\<close> works on it.
\<close>

theorem getMetadata_outcomes_witness:
  "getKnownFieldValue (fields' plainInscription2) metadata = None \<and>
   getMetadata ordHelper plainInscription2 = Inr None \<and>
   getKnownFieldValue (fields' (plainInscription2\<lparr>fields' := [\<lparr>tag = [0x05], fvalue = [0x07]\<rparr>]\<rparr>)) metadata
     = Some [0x07] \<and>
   cborDecode ordHelper [0x07] = Inr 7 \<and>
   getMetadata ordHelper (plainInscription2\<lparr>fields' := [\<lparr>tag = [0x05], fvalue = [0x07]\<rparr>]\<rparr>)
     = Inr (Some 7) \<and>
   extractInscriptionData2 ordHelper badMetadataEnvelope 6 = Some badMetadataInscription \<and>
   getKnownFieldValue (fields' badMetadataInscription) metadata = Some [0x18] \<and>
   cborDecode ordHelper [0x18] = Inl MetadataDecodeFailure \<and>
   getMetadata ordHelper badMetadataInscription = Inl MetadataDecodeFailure \<and>
   extractInscriptionData2 (ordHelper\<lparr>cborDecode := \<lambda>bs. Inr 0\<rparr>) badMetadataEnvelope 6
     = Some badMetadataInscription \<and>
   getData badMetadataInscription = ''aGk=''"
proof -
  let ?good = "plainInscription2\<lparr>fields' := [\<lparr>tag = [0x05], fvalue = [0x07]\<rparr>]\<rparr>"
  have k0: "getKnownFieldValue (fields' plainInscription2) metadata = None"
    by code_simp
  have k1: "getKnownFieldValue (fields' ?good) metadata = Some [0x07]"
    by code_simp
  have d1: "cborDecode ordHelper [0x07] = Inr 7"
    by code_simp
  have e: "extractInscriptionData2 ordHelper badMetadataEnvelope 6 = Some badMetadataInscription"
    by code_simp
  have k2: "getKnownFieldValue (fields' badMetadataInscription) metadata = Some [0x18]"
    by code_simp
  have d2: "cborDecode ordHelper [0x18] = Inl MetadataDecodeFailure"
    by code_simp
  have g: "getData badMetadataInscription = ''aGk=''"
    by code_simp
  note a = getMetadata_outcomes [where r = plainInscription2 and h = ordHelper,
      THEN conjunct1, THEN mp, OF k0]
  note b = getMetadata_outcomes [where r = ?good and h = ordHelper,
      THEN conjunct2, THEN conjunct1, THEN mp, OF conjI [OF k1 d1]]
  note c = getMetadata_outcomes [where r = badMetadataInscription and h = ordHelper,
      THEN conjunct2, THEN conjunct2, THEN conjunct1, THEN mp, OF conjI [OF k2 d2]]
  note x = getMetadata_outcomes [where h = ordHelper and d = "\<lambda>bs. Inr 0"
      and raw = badMetadataEnvelope and p = 6,
      THEN conjunct2, THEN conjunct2, THEN conjunct2]
  from x e have x': "extractInscriptionData2 (ordHelper\<lparr>cborDecode := \<lambda>bs. Inr 0\<rparr>) badMetadataEnvelope 6
     = Some badMetadataInscription"
    by simp
  show ?thesis
    by (intro conjI k0 a k1 d1 b e k2 d2 c x' g)
qed

text \<open>
  C3 as stated fails: no \<open>try\<close> block surrounds \<open>CBOR.decode\<close> in \<open>getMetadata\<close>.
  On the record parsed from \<open>badMetadataEnvelope\<close> the accessor raises the decoder's
  exception instead of returning \<open>undefined\<close>.
\<close>

theorem getMetadata_throws:
  "map_option (getMetadata ordHelper) (extractInscriptionData2 ordHelper badMetadataEnvelope 6)
     = Some (Inl MetadataDecodeFailure)"
  by code_simp

section \<open>The two parsers agree\<close>

lemma extract_agree:
  assumes "\<And>q flds. fieldsLoop2 raw p [] = Inr (q, flds) \<Longrightarrow>
             getKnownFieldValue flds content_encoding = None"
  shows "map_option commonView (extractInscriptionData1 h raw p) =
         map_option commonView (extractInscriptionData2 h raw p)"
proof (cases "readEnvelope2 h raw p")
  case (Inl ex)
  then show ?thesis
    by (simp add: extractInscriptionData1_def extractInscriptionData2_def
        tryExtract1_known_field tryExtract2_def)
next
  case (Inr a)
  obtain flds body where a: "a = (flds, body)" by (cases a)
  from Inr a obtain q where "fieldsLoop2 raw p [] = Inr (q, flds)"
    by (auto simp: readEnvelope2_def simp del: fieldsLoop2.simps bodyLoop2.simps split: sum.splits)
  from assms [OF this] have n: "getKnownFieldValue flds content_encoding = None" .
  show ?thesis
  proof (cases "getKnownFieldValue flds content_type")
    case None
    with Inr a show ?thesis
      by (simp add: extractInscriptionData1_def extractInscriptionData2_def
          tryExtract1_known_field tryExtract2_def)
  next
    case (Some v)
    with Inr a n show ?thesis
      by (simp add: extractInscriptionData1_def extractInscriptionData2_def
          tryExtract1_known_field tryExtract2_def commonView_def getData_def getDataUri_def)
  qed
qed

text \<open>
  C9. For a witness in which no envelope that the scanning loop visits has a content
  encoding field, \<open>parseInscriptionsWithinWitness\<close> of the two files behaves alike:
  both raise the same exception, or both return \<open>null\<close>, or both return lists of the
  same length whose records agree, position by position, on the content type, the fields
  and the results of \<open>getData\<close> and \<open>getDataUri\<close>.
\<close>

theorem parsers_agree_without_content_encoding:
  assumes "\<forall>raw p q flds.
             hexStringToUint8Array h (concat w) = Inr raw \<and> scanned h raw 0 p \<and>
             fieldsLoop2 raw p [] = Inr (q, flds) \<longrightarrow>
             getKnownFieldValue flds content_encoding = None"
  shows "map_option (map_sum id (map_option (map commonView)))
           (parseInscriptionsWithinWitness h (extractInscriptionData1 h) w) =
         map_option (map_sum id (map_option (map commonView)))
           (parseInscriptionsWithinWitness h (extractInscriptionData2 h) w)"
proof (cases "hexStringToUint8Array h (concat w)")
  case (Inl ex)
  then show ?thesis by (simp add: parseInscriptionsWithinWitness_def)
next
  case (Inr raw)
  have agree: "map_option commonView (extractInscriptionData1 h raw p) =
               map_option commonView (extractInscriptionData2 h raw p)"
    if "scanned h raw 0 p" for p
  proof (rule extract_agree)
    fix q flds
    assume "fieldsLoop2 raw p [] = Inr (q, flds)"
    with assms Inr that show "getKnownFieldValue flds content_encoding = None" by blast
  qed
  have "(scanLoop h (extractInscriptionData1 h) raw 0 [] = None \<and>
         scanLoop h (extractInscriptionData2 h) raw 0 [] = None) \<or>
        (\<exists>rs1 rs2. scanLoop h (extractInscriptionData1 h) raw 0 [] = Some rs1 \<and>
            scanLoop h (extractInscriptionData2 h) raw 0 [] = Some rs2 \<and>
            map commonView rs1 = map commonView rs2)"
    by (rule scanLoop_agree) (rule agree)
  then show ?thesis
  proof (elim disjE conjE exE)
    assume "scanLoop h (extractInscriptionData1 h) raw 0 [] = None"
      and "scanLoop h (extractInscriptionData2 h) raw 0 [] = None"
    with Inr show ?thesis by (simp add: parseInscriptionsWithinWitness_def)
  next
    fix rs1 rs2
    assume s1: "scanLoop h (extractInscriptionData1 h) raw 0 [] = Some rs1"
      and s2: "scanLoop h (extractInscriptionData2 h) raw 0 [] = Some rs2"
      and m: "map commonView rs1 = map commonView rs2"
    from m have "length rs1 = length rs2" by (rule map_eq_imp_length_eq)
    with Inr s1 s2 m show ?thesis by (simp add: parseInscriptionsWithinWitness_def)
  qed
qed

text \<open>
  The witness of an envelope without content type followed by \<open>plainEnvelope\<close>: the
  loop visits the offsets 6 and 21, neither envelope has a content encoding field, and
  both parsers return the one record of the second envelope.
\<close>

theorem parsers_agree_without_content_encoding_witness:
  "hexStringToUint8Array ordHelper (concat [untypedEnvelopeHex, plainEnvelopeHex])
     = Inr (untypedEnvelope @ plainEnvelope) \<and>
   getNextInscriptionMark ordHelper (untypedEnvelope @ plainEnvelope) 0 = Some 6 \<and>
   getNextInscriptionMark ordHelper (untypedEnvelope @ plainEnvelope) 6 = Some 21 \<and>
   getNextInscriptionMark ordHelper (untypedEnvelope @ plainEnvelope) 21 = None \<and>
   fieldsLoop2 (untypedEnvelope @ plainEnvelope) 6 [] = Inr (10, [\<lparr>tag = [0x05], fvalue = [0x07]\<rparr>]) \<and>
   fieldsLoop2 (untypedEnvelope @ plainEnvelope) 21 [] = Inr (34, fields' plainInscription2) \<and>
   getKnownFieldValue [\<lparr>tag = [0x05], fvalue = [0x07]\<rparr>] content_encoding = None \<and>
   getKnownFieldValue (fields' plainInscription2) content_encoding = None \<and>
   parseInscriptionsWithinWitness ordHelper (extractInscriptionData1 ordHelper)
     [untypedEnvelopeHex, plainEnvelopeHex] = Some (Inr (Some [plainInscription])) \<and>
   parseInscriptionsWithinWitness ordHelper (extractInscriptionData2 ordHelper)
     [untypedEnvelopeHex, plainEnvelopeHex] = Some (Inr (Some [plainInscription2])) \<and>
   map_option (map_sum id (map_option (map commonView)))
     (parseInscriptionsWithinWitness ordHelper (extractInscriptionData1 ordHelper)
        [untypedEnvelopeHex, plainEnvelopeHex]) =
   map_option (map_sum id (map_option (map commonView)))
     (parseInscriptionsWithinWitness ordHelper (extractInscriptionData2 ordHelper)
        [untypedEnvelopeHex, plainEnvelopeHex])"
proof -
  let ?w = "[untypedEnvelopeHex, plainEnvelopeHex]"
  let ?R = "untypedEnvelope @ plainEnvelope"
  have hx: "hexStringToUint8Array ordHelper (concat ?w) = Inr ?R"
    by code_simp
  have g0: "getNextInscriptionMark ordHelper ?R 0 = Some 6"
    by code_simp
  have g6: "getNextInscriptionMark ordHelper ?R 6 = Some 21"
    by code_simp
  have g21: "getNextInscriptionMark ordHelper ?R 21 = None"
    by code_simp
  have f6: "fieldsLoop2 ?R 6 [] = Inr (10, [\<lparr>tag = [0x05], fvalue = [0x07]\<rparr>])"
    by code_simp
  have f21: "fieldsLoop2 ?R 21 [] = Inr (34, fields' plainInscription2)"
    by code_simp
  have k6: "getKnownFieldValue [\<lparr>tag = [0x05], fvalue = [0x07]\<rparr>] content_encoding = None"
    by code_simp
  have k21: "getKnownFieldValue (fields' plainInscription2) content_encoding = None"
    by code_simp
  have p1: "parseInscriptionsWithinWitness ordHelper (extractInscriptionData1 ordHelper) ?w
      = Some (Inr (Some [plainInscription]))"
    by code_simp
  have p2: "parseInscriptionsWithinWitness ordHelper (extractInscriptionData2 ordHelper) ?w
      = Some (Inr (Some [plainInscription2]))"
    by code_simp
  have s21: "\<not> scanned ordHelper ?R 21 p" for p
  proof
    assume "scanned ordHelper ?R 21 p"
    then show False
      by (cases rule: scanned.cases) (simp_all only: g21 option.distinct)
  qed
  have s6: "p = 21" if "scanned ordHelper ?R 6 p" for p
    using that
  proof (cases rule: scanned.cases)
    case found
    with g6 show ?thesis by simp
  next
    case (later p')
    from later(1) g6 have "p' = 21" by (simp only: option.inject)
    with later(2) s21 show ?thesis by blast
  qed
  have s0: "p = 6 \<or> p = 21" if "scanned ordHelper ?R 0 p" for p
    using that
  proof (cases rule: scanned.cases)
    case found
    with g0 show ?thesis by simp
  next
    case (later p')
    from later(1) g0 have "p' = 6" by (simp only: option.inject)
    with later(2) s6 show ?thesis by blast
  qed
  have hyp: "\<forall>raw p q flds.
             hexStringToUint8Array ordHelper (concat ?w) = Inr raw \<and> scanned ordHelper raw 0 p \<and>
             fieldsLoop2 raw p [] = Inr (q, flds) \<longrightarrow>
             getKnownFieldValue flds content_encoding = None"
  proof (intro allI impI, elim conjE)
    fix raw p q flds
    assume h1: "hexStringToUint8Array ordHelper (concat ?w) = Inr raw"
      and h2: "scanned ordHelper raw 0 p"
      and h3: "fieldsLoop2 raw p [] = Inr (q, flds)"
    from h1 hx have raw: "raw = ?R" by (simp only: sum.inject)
    from h2 raw s0 have "p = 6 \<or> p = 21" by blast
    then show "getKnownFieldValue flds content_encoding = None"
    proof
      assume "p = 6"
      with h3 raw f6 have "flds = [\<lparr>tag = [0x05], fvalue = [0x07]\<rparr>]"
        by (simp only: sum.inject prod.inject)
      with k6 show ?thesis by (simp only:)
    next
      assume "p = 21"
      with h3 raw f21 have "flds = fields' plainInscription2"
        by (simp only: sum.inject prod.inject)
      with k21 show ?thesis by (simp only:)
    qed
  qed
  note r = parsers_agree_without_content_encoding [OF hyp]
  show ?thesis
    by (intro conjI hx g0 g6 g21 f6 f21 k6 k21 p1 p2 r)
qed

end
